theory Spec2Isabelle
  imports Main "HOL-Library.Word"
begin

section \<open>Memory model\<close>

text \<open>
  The two headers \<^verbatim>\<open>array_ptr.h\<close> and \<^verbatim>\<open>simple_vector.h\<close> are embedded over an
  explicit store, because several member functions take a reference to a second object
  that may be the object itself (\<^verbatim>\<open>a = std::move(a)\<close>, \<^verbatim>\<open>v = v\<close>, \<^verbatim>\<open>v.swap(v)\<close>).

  \<^item> \<^verbatim>\<open>size_t\<close> is a 64-bit word: \<open>+\<close>, \<open>-\<close> and \<open>*\<close> wrap around, comparisons are unsigned.
  \<^item> An array created by \<^verbatim>\<open>new Type[n]{}\<close> is a block of the free store: an address
    mapped to the list of its \<open>n\<close> elements. \<^verbatim>\<open>delete[]\<close> removes the block. The
    free store is finite: the store records how many elements it can still supply (a
    number that depends on the machine and on the element type), and no array has
    \<open>2^63\<close> elements or more, whatever the element type (an object is at most
    \<^verbatim>\<open>PTRDIFF_MAX\<close> bytes). A request that cannot be met throws (\<^verbatim>\<open>std::bad_alloc\<close>,
    \<^verbatim>\<open>std::bad_array_new_length\<close>): the error \<open>BadAlloc\<close>. The allocator never hands
    out an address twice.
  \<^item> A pointer \<^verbatim>\<open>Type*\<close> is a block address (or none, for the null pointer) with an
    element offset. Pointer arithmetic is total; a pointer that does not designate an
    element of a live block cannot be dereferenced.
  \<^item> Elements are values, and moving an element is copying it: the element type is one
    whose move leaves the source as it was, as the arithmetic types are.
  \<^item> A \<^verbatim>\<open>const Type&\<close> or \<^verbatim>\<open>Type&&\<close> argument is a reference: either to an object
    outside the free store (a local, a temporary), which no call changes, or to a slot of
    a block, which is read when the code reads the reference, and not before.
  \<^item> \<^verbatim>\<open>Type{}\<close> is the constant \<open>default\<close> of the element type.
  \<^item> The \<^verbatim>\<open>throw\<close> of \<^verbatim>\<open>At\<close> is the error \<open>OutOfRange\<close>; a failed \<^verbatim>\<open>assert\<close> aborts with
    \<open>AssertionFailed\<close>; an access outside a live block, a pointer difference across
    blocks, an invalid range given to a standard algorithm and a \<^verbatim>\<open>delete[]\<close> of a
    block that is not live are \<open>UndefinedBehaviour\<close>.
\<close>

type_synonym size_t = "64 word"

type_synonym addr = nat

datatype error = OutOfRange | BadAlloc | AssertionFailed | UndefinedBehaviour

text \<open>The two exceptions can be caught by the caller; the other two end the program.\<close>

fun catchable :: "error \<Rightarrow> bool" where
  "catchable OutOfRange = True"
| "catchable BadAlloc = True"
| "catchable AssertionFailed = False"
| "catchable UndefinedBehaviour = False"

datatype ptr = Ptr (base: "addr option") (offs: int)

definition nullptr :: ptr where
  "nullptr = Ptr None 0"

definition ptr_add :: "ptr \<Rightarrow> int \<Rightarrow> ptr" where
  "ptr_add p k = Ptr (base p) (offs p + k)"

definition ptr_diff :: "ptr \<Rightarrow> ptr \<Rightarrow> error + int" where
  "ptr_diff p q =
     (if base p = base q then Inr (offs p - offs q) else Inl UndefinedBehaviour)"

text \<open>
  Relational comparison of pointers into different blocks is unspecified in C++; here it
  is false, so an \<^verbatim>\<open>assert\<close> on a foreign position fails.
\<close>

definition ptr_less :: "ptr \<Rightarrow> ptr \<Rightarrow> bool" where
  "ptr_less p q = (base p = base q \<and> offs p < offs q)"

definition ptr_le :: "ptr \<Rightarrow> ptr \<Rightarrow> bool" where
  "ptr_le p q = (base p = base q \<and> offs p \<le> offs q)"

type_synonym 'a heap = "addr \<Rightarrow> 'a list option"

definition load :: "'a heap \<Rightarrow> ptr \<Rightarrow> error + 'a" where
  "load h p =
     (case base p of
        None \<Rightarrow> Inl UndefinedBehaviour
      | Some a \<Rightarrow>
          (case h a of
             None \<Rightarrow> Inl UndefinedBehaviour
           | Some xs \<Rightarrow>
               if 0 \<le> offs p \<and> offs p < int (length xs) then Inr (xs ! nat (offs p))
               else Inl UndefinedBehaviour))"

definition store :: "'a heap \<Rightarrow> ptr \<Rightarrow> 'a \<Rightarrow> error + 'a heap" where
  "store h p x =
     (case base p of
        None \<Rightarrow> Inl UndefinedBehaviour
      | Some a \<Rightarrow>
          (case h a of
             None \<Rightarrow> Inl UndefinedBehaviour
           | Some xs \<Rightarrow>
               if 0 \<le> offs p \<and> offs p < int (length xs)
               then Inr (h(a \<mapsto> xs[nat (offs p) := x]))
               else Inl UndefinedBehaviour))"

text \<open>
  What a reference parameter (\<^verbatim>\<open>const Type&\<close>, \<^verbatim>\<open>Type&&\<close>) is bound to: an object outside
  the free store, given by its value, or the slot a pointer designates. Reading a
  reference to a slot is a load from the store as it is at that moment.
\<close>

datatype 'a arg = is_Value: Value 'a | Ref ptr

definition read_arg :: "'a heap \<Rightarrow> 'a arg \<Rightarrow> error + 'a" where
  "read_arg h r = (case r of Value v \<Rightarrow> Inr v | Ref p \<Rightarrow> load h p)"

definition readable :: "'a heap \<Rightarrow> 'a arg \<Rightarrow> bool" where
  "readable h r = (case read_arg h r of Inl _ \<Rightarrow> False | Inr _ \<Rightarrow> True)"

subsection \<open>The standard algorithms used by the vector\<close>

text \<open>
  \<^verbatim>\<open>std::copy\<close> and \<^verbatim>\<open>std::move\<close> assign element by element from \<open>first\<close> upwards;
  \<^verbatim>\<open>std::copy_backward\<close> and \<^verbatim>\<open>std::move_backward\<close> assign from \<open>last - 1\<close> downwards.
  The loops run \<open>last - first\<close> times; a range whose ends lie in different blocks or are
  in the wrong order is undefined behaviour.
\<close>

fun copy_up :: "nat \<Rightarrow> ptr \<Rightarrow> ptr \<Rightarrow> 'a heap \<Rightarrow> error + 'a heap" where
  "copy_up 0 first d_first h = Inr h"
| "copy_up (Suc n) first d_first h =
     (case load h first of
        Inl e \<Rightarrow> Inl e
      | Inr x \<Rightarrow>
          (case store h d_first x of
             Inl e \<Rightarrow> Inl e
           | Inr h' \<Rightarrow> copy_up n (ptr_add first 1) (ptr_add d_first 1) h'))"

fun copy_down :: "nat \<Rightarrow> ptr \<Rightarrow> ptr \<Rightarrow> 'a heap \<Rightarrow> error + 'a heap" where
  "copy_down 0 lst d_last h = Inr h"
| "copy_down (Suc n) lst d_last h =
     (case load h (ptr_add lst (- 1)) of
        Inl e \<Rightarrow> Inl e
      | Inr x \<Rightarrow>
          (case store h (ptr_add d_last (- 1)) x of
             Inl e \<Rightarrow> Inl e
           | Inr h' \<Rightarrow> copy_down n (ptr_add lst (- 1)) (ptr_add d_last (- 1)) h'))"

definition std_copy :: "ptr \<Rightarrow> ptr \<Rightarrow> ptr \<Rightarrow> 'a heap \<Rightarrow> error + ptr \<times> 'a heap" where
  "std_copy first lst d_first h =
     (case ptr_diff lst first of
        Inl e \<Rightarrow> Inl e
      | Inr n \<Rightarrow>
          if n < 0 then Inl UndefinedBehaviour
          else (case copy_up (nat n) first d_first h of
                  Inl e \<Rightarrow> Inl e
                | Inr h' \<Rightarrow> Inr (ptr_add d_first n, h')))"

definition std_move :: "ptr \<Rightarrow> ptr \<Rightarrow> ptr \<Rightarrow> 'a heap \<Rightarrow> error + ptr \<times> 'a heap" where
  "std_move first lst d_first h = std_copy first lst d_first h"

definition std_copy_backward ::
    "ptr \<Rightarrow> ptr \<Rightarrow> ptr \<Rightarrow> 'a heap \<Rightarrow> error + ptr \<times> 'a heap" where
  "std_copy_backward first lst d_last h =
     (case ptr_diff lst first of
        Inl e \<Rightarrow> Inl e
      | Inr n \<Rightarrow>
          if n < 0 then Inl UndefinedBehaviour
          else (case copy_down (nat n) lst d_last h of
                  Inl e \<Rightarrow> Inl e
                | Inr h' \<Rightarrow> Inr (ptr_add d_last (- n), h')))"

definition std_move_backward ::
    "ptr \<Rightarrow> ptr \<Rightarrow> ptr \<Rightarrow> 'a heap \<Rightarrow> error + ptr \<times> 'a heap" where
  "std_move_backward first lst d_last h = std_copy_backward first lst d_last h"

text \<open>\<^verbatim>\<open>std::fill(first, last, value)\<close>, with \<^verbatim>\<open>const T& value\<close> read at each assignment.\<close>

fun fill_up :: "nat \<Rightarrow> ptr \<Rightarrow> 'a arg \<Rightarrow> 'a heap \<Rightarrow> error + 'a heap" where
  "fill_up 0 first v h = Inr h"
| "fill_up (Suc n) first v h =
     (case read_arg h v of
        Inl e \<Rightarrow> Inl e
      | Inr x \<Rightarrow>
          (case store h first x of
             Inl e \<Rightarrow> Inl e
           | Inr h' \<Rightarrow> fill_up n (ptr_add first 1) v h'))"

definition std_fill :: "ptr \<Rightarrow> ptr \<Rightarrow> 'a arg \<Rightarrow> 'a heap \<Rightarrow> error + 'a heap" where
  "std_fill first lst v h =
     (case ptr_diff lst first of
        Inl e \<Rightarrow> Inl e
      | Inr n \<Rightarrow> if n < 0 then Inl UndefinedBehaviour else fill_up (nat n) first v h)"

text \<open>\<^verbatim>\<open>std::copy(init.begin(), init.end(), d_first)\<close> from an initializer list.\<close>

fun copy_list :: "'a list \<Rightarrow> ptr \<Rightarrow> 'a heap \<Rightarrow> error + 'a heap" where
  "copy_list [] d_first h = Inr h"
| "copy_list (x # xs) d_first h =
     (case store h d_first x of
        Inl e \<Rightarrow> Inl e
      | Inr h' \<Rightarrow> copy_list xs (ptr_add d_first 1) h')"

subsection \<open>Objects\<close>

text \<open>
  An \<^verbatim>\<open>ArrayPtr\<close> object is either the member \<^verbatim>\<open>items_\<close> of a vector or a free-standing
  object (such as the local \<^verbatim>\<open>arr_tmp\<close>). The store keeps, for every object, its fields.
  A newly constructed object gets the next unused identity.
\<close>

datatype aref = Items nat | Local nat

record 'a world =
  heap :: "'a heap"
  fresh :: addr
  avail :: nat
  next_obj :: nat
  raw_ptr :: "aref \<Rightarrow> ptr"
  size_m :: "nat \<Rightarrow> size_t"
  capacity_m :: "nat \<Rightarrow> size_t"

text \<open>The empty store of a machine whose free store holds \<open>m\<close> elements.\<close>

definition init_world :: "nat \<Rightarrow> 'a world" where
  "init_world m =
     \<lparr>heap = (\<lambda>_. None), fresh = 0, avail = m, next_obj = 0, raw_ptr = (\<lambda>_. nullptr),
      size_m = (\<lambda>_. 0), capacity_m = (\<lambda>_. 0)\<rparr>"

definition new_obj :: "'a world \<Rightarrow> nat \<times> 'a world" where
  "new_obj w = (next_obj w, w\<lparr>next_obj := Suc (next_obj w)\<rparr>)"

text \<open>
  \<^verbatim>\<open>new Type[n]{}\<close>: a fresh block of \<open>n\<close> value-initialised elements, or the exception
  when the free store cannot supply \<open>n\<close> elements or \<open>n\<close> is \<open>2^63\<close> or more.
\<close>

definition can_allocate :: "size_t \<Rightarrow> 'a world \<Rightarrow> bool" where
  "can_allocate n w = (unat n \<le> avail w \<and> unat n < 2 ^ 63)"

definition new_array :: "size_t \<Rightarrow> 'a::default world \<Rightarrow> error + ptr \<times> 'a world" where
  "new_array n w =
     (if can_allocate n w
      then Inr (Ptr (Some (fresh w)) 0,
                w\<lparr>heap := (heap w)(fresh w \<mapsto> replicate (unat n) default),
                  fresh := Suc (fresh w), avail := avail w - unat n\<rparr>)
      else Inl BadAlloc)"

text \<open>
  \<^verbatim>\<open>delete[] p\<close>: nothing for the null pointer, otherwise \<open>p\<close> must be a live block; its
  elements go back to the free store.
\<close>

definition delete_array :: "ptr \<Rightarrow> 'a world \<Rightarrow> error + 'a world" where
  "delete_array p w =
     (if p = nullptr then Inr w
      else (case base p of
              None \<Rightarrow> Inl UndefinedBehaviour
            | Some a \<Rightarrow>
                (case heap w a of
                   None \<Rightarrow> Inl UndefinedBehaviour
                 | Some xs \<Rightarrow>
                     if offs p = 0
                     then Inr (w\<lparr>heap := (heap w)(a := None), avail := avail w + length xs\<rparr>)
                     else Inl UndefinedBehaviour)))"

section \<open>ArrayPtr\<close>

definition ArrayPtr_default :: "aref \<Rightarrow> 'a world \<Rightarrow> 'a world" where
  "ArrayPtr_default this w = w\<lparr>raw_ptr := (raw_ptr w)(this := nullptr)\<rparr>"

definition ArrayPtr_size :: "aref \<Rightarrow> size_t \<Rightarrow> 'a::default world \<Rightarrow> error + 'a world" where
  "ArrayPtr_size this sz w =
     (let w0 = w\<lparr>raw_ptr := (raw_ptr w)(this := nullptr)\<rparr>;
          tmp = (0 :: size_t)
      in if sz > tmp
         then (case new_array sz w0 of
                 Inl e \<Rightarrow> Inl e
               | Inr (tmp_ptr, w1) \<Rightarrow> Inr (w1\<lparr>raw_ptr := (raw_ptr w1)(this := tmp_ptr)\<rparr>))
         else Inr w0)"

definition ArrayPtr_raw :: "aref \<Rightarrow> ptr \<Rightarrow> 'a world \<Rightarrow> 'a world" where
  "ArrayPtr_raw this p w = w\<lparr>raw_ptr := (raw_ptr w)(this := p)\<rparr>"

text \<open>\<^verbatim>\<open>std::exchange(other.raw_ptr_, nullptr)\<close> reads the old value, then overwrites it.\<close>

definition ArrayPtr_move :: "aref \<Rightarrow> aref \<Rightarrow> 'a world \<Rightarrow> 'a world" where
  "ArrayPtr_move this other w =
     (let w0 = w\<lparr>raw_ptr := (raw_ptr w)(this := nullptr)\<rparr>;
          old = raw_ptr w0 other;
          w1 = w0\<lparr>raw_ptr := (raw_ptr w0)(other := nullptr)\<rparr>
      in w1\<lparr>raw_ptr := (raw_ptr w1)(this := old)\<rparr>)"

definition ArrayPtr_move_assign :: "aref \<Rightarrow> aref \<Rightarrow> 'a world \<Rightarrow> error + 'a world" where
  "ArrayPtr_move_assign this other w =
     (case (if raw_ptr w this \<noteq> nullptr then delete_array (raw_ptr w this) w else Inr w) of
        Inl e \<Rightarrow> Inl e
      | Inr w0 \<Rightarrow>
          (let old = raw_ptr w0 other;
               w1 = w0\<lparr>raw_ptr := (raw_ptr w0)(other := nullptr)\<rparr>
           in Inr (w1\<lparr>raw_ptr := (raw_ptr w1)(this := old)\<rparr>)))"

definition ArrayPtr_dtor :: "aref \<Rightarrow> 'a world \<Rightarrow> error + 'a world" where
  "ArrayPtr_dtor this w = delete_array (raw_ptr w this) w"

definition Release :: "aref \<Rightarrow> 'a world \<Rightarrow> ptr \<times> 'a world" where
  "Release this w =
     (let tmp = raw_ptr w this
      in (tmp, w\<lparr>raw_ptr := (raw_ptr w)(this := nullptr)\<rparr>))"

text \<open>\<^verbatim>\<open>operator[]\<close> yields the reference \<^verbatim>\<open>*(raw_ptr_ + index)\<close>, here the pointer to the slot.\<close>

definition ArrayPtr_index :: "'a world \<Rightarrow> aref \<Rightarrow> size_t \<Rightarrow> ptr" where
  "ArrayPtr_index w this index = ptr_add (raw_ptr w this) (uint index)"

definition ArrayPtr_bool :: "'a world \<Rightarrow> aref \<Rightarrow> bool" where
  "ArrayPtr_bool w this = (\<not> (raw_ptr w this = nullptr))"

definition Get :: "'a world \<Rightarrow> aref \<Rightarrow> ptr" where
  "Get w this = raw_ptr w this"

definition ArrayPtr_swap :: "aref \<Rightarrow> aref \<Rightarrow> 'a world \<Rightarrow> 'a world" where
  "ArrayPtr_swap this other w =
     (let a = raw_ptr w this; b = raw_ptr w other;
          w1 = w\<lparr>raw_ptr := (raw_ptr w)(this := b)\<rparr>
      in w1\<lparr>raw_ptr := (raw_ptr w1)(other := a)\<rparr>)"

section \<open>SimpleVector\<close>

text \<open>
  A vector object is named by a number \<open>this\<close>; its fields are \<open>size_m w this\<close>,
  \<open>capacity_m w this\<close> and the \<^verbatim>\<open>ArrayPtr\<close> member \<open>Items this\<close>. Iterators are pointers.
\<close>

datatype ReserveProxyObj = ReserveProxyObj (capacity_to_reserve_m: size_t)

definition ReserveProxyObj_GetCapacity :: "ReserveProxyObj \<Rightarrow> size_t" where
  "ReserveProxyObj_GetCapacity p = capacity_to_reserve_m p"

definition Reserve_proxy :: "size_t \<Rightarrow> ReserveProxyObj" where
  "Reserve_proxy capacity_to_reserve = ReserveProxyObj capacity_to_reserve"

definition GetSize :: "'a world \<Rightarrow> nat \<Rightarrow> size_t" where
  "GetSize w this = size_m w this"

definition GetCapacity :: "'a world \<Rightarrow> nat \<Rightarrow> size_t" where
  "GetCapacity w this = capacity_m w this"

definition IsEmpty :: "'a world \<Rightarrow> nat \<Rightarrow> bool" where
  "IsEmpty w this = (size_m w this = 0)"

definition cbegin :: "'a world \<Rightarrow> nat \<Rightarrow> ptr" where
  "cbegin w this = Get w (Items this)"

definition cend :: "'a world \<Rightarrow> nat \<Rightarrow> ptr" where
  "cend w this = ptr_add (Get w (Items this)) (uint (size_m w this))"

definition begin_it :: "'a world \<Rightarrow> nat \<Rightarrow> ptr" where
  "begin_it w this = Get w (Items this)"

definition end_it :: "'a world \<Rightarrow> nat \<Rightarrow> ptr" where
  "end_it w this = ptr_add (Get w (Items this)) (uint (size_m w this))"

text \<open>The default member initialisers: a null \<^verbatim>\<open>items_\<close>, \<^verbatim>\<open>size_ = 0\<close>, \<^verbatim>\<open>capacity_ = 0\<close>.\<close>

definition default_members :: "nat \<Rightarrow> 'a world \<Rightarrow> 'a world" where
  "default_members this w =
     (let w0 = ArrayPtr_default (Items this) w
      in w0\<lparr>size_m := (size_m w0)(this := 0), capacity_m := (capacity_m w0)(this := 0)\<rparr>)"

definition SimpleVector_default :: "'a world \<Rightarrow> nat \<times> 'a world" where
  "SimpleVector_default w = (let (this, w0) = new_obj w in (this, default_members this w0))"

definition SimpleVector_size ::
    "size_t \<Rightarrow> 'a::default world \<Rightarrow> error + nat \<times> 'a world" where
  "SimpleVector_size sz w =
     (let (this, w0) = new_obj w
      in case ArrayPtr_size (Items this) sz w0 of
           Inl e \<Rightarrow> Inl e
         | Inr w1 \<Rightarrow>
             Inr (this, w1\<lparr>size_m := (size_m w1)(this := sz),
                            capacity_m := (capacity_m w1)(this := sz)\<rparr>))"

definition SimpleVector_fill ::
    "size_t \<Rightarrow> 'a arg \<Rightarrow> 'a::default world \<Rightarrow> error + nat \<times> 'a world" where
  "SimpleVector_fill sz v w =
     (let (this, w0) = new_obj w
      in case ArrayPtr_size (Items this) sz w0 of
           Inl e \<Rightarrow> Inl e
         | Inr w1 \<Rightarrow>
             (let w2 = w1\<lparr>size_m := (size_m w1)(this := sz),
                           capacity_m := (capacity_m w1)(this := sz)\<rparr>
              in if sz = 0 then Inr (this, w2)
                 else (case std_fill (begin_it w2 this) (end_it w2 this) v (heap w2) of
                         Inl e \<Rightarrow> Inl e
                       | Inr h \<Rightarrow> Inr (this, w2\<lparr>heap := h\<rparr>))))"

definition SimpleVector_init ::
    "'a list \<Rightarrow> 'a::default world \<Rightarrow> error + nat \<times> 'a world" where
  "SimpleVector_init init w =
     (let (this, w0) = new_obj w
      in case ArrayPtr_size (Items this) (of_nat (length init)) w0 of
           Inl e \<Rightarrow> Inl e
         | Inr w1 \<Rightarrow>
             (let w2 = w1\<lparr>size_m := (size_m w1)(this := of_nat (length init)),
                           capacity_m := (capacity_m w1)(this := of_nat (length init))\<rparr>
              in case copy_list init (Get w2 (Items this)) (heap w2) of
                   Inl e \<Rightarrow> Inl e
                 | Inr h \<Rightarrow> Inr (this, w2\<lparr>heap := h\<rparr>)))"

definition SimpleVector_copy :: "nat \<Rightarrow> 'a::default world \<Rightarrow> error + nat \<times> 'a world" where
  "SimpleVector_copy other w =
     (let (this, w0) = new_obj w
      in case ArrayPtr_size (Items this) (GetCapacity w0 other) w0 of
           Inl e \<Rightarrow> Inl e
         | Inr w1 \<Rightarrow>
             (let w2 = w1\<lparr>size_m := (size_m w1)(this := GetSize w1 other),
                           capacity_m := (capacity_m w1)(this := GetCapacity w1 other)\<rparr>
              in case std_copy (cbegin w2 other) (cend w2 other) (Get w2 (Items this))
                        (heap w2) of
                   Inl e \<Rightarrow> Inl e
                 | Inr (_, h) \<Rightarrow> Inr (this, w2\<lparr>heap := h\<rparr>)))"

text \<open>The implicit destructor destroys the member \<^verbatim>\<open>items_\<close>.\<close>

definition SimpleVector_dtor :: "nat \<Rightarrow> 'a world \<Rightarrow> error + 'a world" where
  "SimpleVector_dtor this w = ArrayPtr_dtor (Items this) w"

definition swap_v :: "nat \<Rightarrow> nat \<Rightarrow> 'a world \<Rightarrow> 'a world" where
  "swap_v this other w =
     (let w1 = ArrayPtr_swap (Items this) (Items other) w;
          s = size_m w1 this;
          w2 = w1\<lparr>size_m := (size_m w1)(this := size_m w1 other)\<rparr>;
          w3 = w2\<lparr>size_m := (size_m w2)(other := s)\<rparr>;
          c = capacity_m w3 this;
          w4 = w3\<lparr>capacity_m := (capacity_m w3)(this := capacity_m w3 other)\<rparr>
      in w4\<lparr>capacity_m := (capacity_m w4)(other := c)\<rparr>)"

definition copy_assign :: "nat \<Rightarrow> nat \<Rightarrow> 'a::default world \<Rightarrow> error + 'a world" where
  "copy_assign this rhs w =
     (if this = rhs then Inr w
      else (case SimpleVector_copy rhs w of
              Inl e \<Rightarrow> Inl e
            | Inr (tmp, w1) \<Rightarrow> SimpleVector_dtor tmp (swap_v this tmp w1)))"

text \<open>
  \<^verbatim>\<open>x = std::exchange(rhs.x, 0)\<close> on the two size fields and on the two capacity fields.
\<close>

definition exchange_fields :: "nat \<Rightarrow> nat \<Rightarrow> 'a world \<Rightarrow> 'a world" where
  "exchange_fields this rhs w =
     (let s = size_m w rhs;
          w1 = w\<lparr>size_m := (size_m w)(rhs := 0)\<rparr>;
          w2 = w1\<lparr>size_m := (size_m w1)(this := s)\<rparr>;
          c = capacity_m w2 rhs;
          w3 = w2\<lparr>capacity_m := (capacity_m w2)(rhs := 0)\<rparr>
      in w3\<lparr>capacity_m := (capacity_m w3)(this := c)\<rparr>)"

definition SimpleVector_move :: "nat \<Rightarrow> 'a world \<Rightarrow> error + nat \<times> 'a world" where
  "SimpleVector_move other w =
     (let (this, w0) = new_obj w;
          w1 = default_members this w0
      in case ArrayPtr_move_assign (Items this) (Items other) w1 of
           Inl e \<Rightarrow> Inl e
         | Inr w2 \<Rightarrow> Inr (this, exchange_fields this other w2))"

definition move_assign :: "nat \<Rightarrow> nat \<Rightarrow> 'a world \<Rightarrow> error + 'a world" where
  "move_assign this rhs w =
     (if this = rhs then Inr w
      else (case ArrayPtr_move_assign (Items this) (Items rhs) w of
              Inl e \<Rightarrow> Inl e
            | Inr w1 \<Rightarrow> Inr (exchange_fields this rhs w1)))"

text \<open>
  The loop of \<^verbatim>\<open>Resize\<close> that overwrites the newly exposed slots:
  \<^verbatim>\<open>for (auto it = items_.Get() + size_; it < items_.Get() + new_size; ++it) *it = Type{};\<close>
\<close>

function Resize_loop :: "ptr \<Rightarrow> ptr \<Rightarrow> 'a::default heap \<Rightarrow> error + 'a heap" where
  "Resize_loop it lim h =
     (if ptr_less it lim
      then (case store h it default of
              Inl e \<Rightarrow> Inl e
            | Inr h' \<Rightarrow> Resize_loop (ptr_add it 1) lim h')
      else Inr h)"
  by pat_completeness auto
termination
  by (relation "measure (\<lambda>(it, lim, h). nat (offs lim - offs it))")
     (auto simp: ptr_less_def ptr_add_def)

declare Resize_loop.simps [simp del]

definition Resize :: "nat \<Rightarrow> size_t \<Rightarrow> 'a::default world \<Rightarrow> error + 'a world" where
  "Resize this new_size w =
     (if new_size > capacity_m w this then
        (let new_capacity =
               max new_size (if capacity_m w this = 0 then 1 else capacity_m w this * 2);
             (k, w0) = new_obj w;
             arr_tmp = Local k
         in case ArrayPtr_size arr_tmp new_capacity w0 of
              Inl e \<Rightarrow> Inl e
            | Inr w1 \<Rightarrow>
                (case std_move (begin_it w1 this) (end_it w1 this) (Get w1 arr_tmp)
                        (heap w1) of
                   Inl e \<Rightarrow> Inl e
                 | Inr (_, h) \<Rightarrow>
                     (let w2 = ArrayPtr_swap (Items this) arr_tmp (w1\<lparr>heap := h\<rparr>);
                          w3 = w2\<lparr>size_m := (size_m w2)(this := new_size)\<rparr>;
                          w4 = w3\<lparr>capacity_m := (capacity_m w3)(this := new_capacity)\<rparr>
                      in ArrayPtr_dtor arr_tmp w4)))
      else if new_size > size_m w this then
        (case Resize_loop (ptr_add (Get w (Items this)) (uint (size_m w this)))
                (ptr_add (Get w (Items this)) (uint new_size)) (heap w) of
           Inl e \<Rightarrow> Inl e
         | Inr h \<Rightarrow> Inr (w\<lparr>heap := h, size_m := (size_m w)(this := new_size)\<rparr>))
      else Inr (w\<lparr>size_m := (size_m w)(this := new_size)\<rparr>))"

definition Reserve :: "nat \<Rightarrow> size_t \<Rightarrow> 'a::default world \<Rightarrow> error + 'a world" where
  "Reserve this new_capacity w =
     (if capacity_m w this < new_capacity then
        (let (k, w0) = new_obj w;
             arr_tmp = Local k
         in case ArrayPtr_size arr_tmp new_capacity w0 of
              Inl e \<Rightarrow> Inl e
            | Inr w1 \<Rightarrow>
                (case std_move (begin_it w1 this) (end_it w1 this) (Get w1 arr_tmp)
                        (heap w1) of
                   Inl e \<Rightarrow> Inl e
                 | Inr (_, h) \<Rightarrow>
                     (let w2 = ArrayPtr_swap (Items this) arr_tmp (w1\<lparr>heap := h\<rparr>);
                          w3 = w2\<lparr>capacity_m := (capacity_m w2)(this := new_capacity)\<rparr>
                      in ArrayPtr_dtor arr_tmp w3)))
      else Inr w)"

definition SimpleVector_reserve ::
    "ReserveProxyObj \<Rightarrow> 'a::default world \<Rightarrow> error + nat \<times> 'a world" where
  "SimpleVector_reserve rhs w =
     (let (this, w0) = new_obj w;
          w1 = default_members this w0
      in case Reserve this (ReserveProxyObj_GetCapacity rhs) w1 of
           Inl e \<Rightarrow> Inl e
         | Inr w2 \<Rightarrow> Inr (this, w2))"

definition CheckCapacityAndResize :: "nat \<Rightarrow> 'a::default world \<Rightarrow> error + 'a world" where
  "CheckCapacityAndResize this w =
     (if size_m w this \<ge> capacity_m w this then Resize this (size_m w this + 1) w
      else Inr (w\<lparr>size_m := (size_m w)(this := size_m w this + 1)\<rparr>))"

text \<open>
  \<^verbatim>\<open>items_[size_ - 1] = item\<close> reads the reference \<open>item\<close> after
  \<^verbatim>\<open>CheckCapacityAndResize\<close> has run, in the store that call left.
\<close>

definition PushBack :: "nat \<Rightarrow> 'a arg \<Rightarrow> 'a::default world \<Rightarrow> error + 'a world" where
  "PushBack this item w =
     (case CheckCapacityAndResize this w of
        Inl e \<Rightarrow> Inl e
      | Inr w1 \<Rightarrow>
          (case read_arg (heap w1) item of
             Inl e \<Rightarrow> Inl e
           | Inr x \<Rightarrow>
               (case store (heap w1) (ArrayPtr_index w1 (Items this) (size_m w1 this - 1)) x of
                  Inl e \<Rightarrow> Inl e
                | Inr h \<Rightarrow> Inr (w1\<lparr>heap := h\<rparr>))))"

text \<open>The overload \<^verbatim>\<open>PushBack(Type&&)\<close>: the same statements, the value is moved in.\<close>

definition PushBack_move :: "nat \<Rightarrow> 'a arg \<Rightarrow> 'a::default world \<Rightarrow> error + 'a world" where
  "PushBack_move this item w =
     (case CheckCapacityAndResize this w of
        Inl e \<Rightarrow> Inl e
      | Inr w1 \<Rightarrow>
          (case read_arg (heap w1) item of
             Inl e \<Rightarrow> Inl e
           | Inr x \<Rightarrow>
               (case store (heap w1) (ArrayPtr_index w1 (Items this) (size_m w1 this - 1)) x of
                  Inl e \<Rightarrow> Inl e
                | Inr h \<Rightarrow> Inr (w1\<lparr>heap := h\<rparr>))))"

definition PopBack :: "nat \<Rightarrow> 'a world \<Rightarrow> error + 'a world" where
  "PopBack this w =
     (if \<not> (\<not> IsEmpty w this) then Inl AssertionFailed
      else Inr (w\<lparr>size_m := (size_m w)(this := size_m w this - 1)\<rparr>))"

text \<open>
  \<^verbatim>\<open>*it = value\<close> reads the reference \<open>value\<close> after the reallocation, if any, and after
  the elements have been shifted.
\<close>

definition Insert ::
    "nat \<Rightarrow> ptr \<Rightarrow> 'a arg \<Rightarrow> 'a::default world \<Rightarrow> error + ptr \<times> 'a world" where
  "Insert this pos v w =
     (if \<not> (ptr_le (cbegin w this) pos \<and> ptr_le pos (cend w this)) then Inl AssertionFailed
      else if pos = cend w this then
        (case PushBack this v w of
           Inl e \<Rightarrow> Inl e
         | Inr w1 \<Rightarrow> Inr (ptr_add (end_it w1 this) (- 1), w1))
      else
        (case ptr_diff pos (Get w (Items this)) of
           Inl e \<Rightarrow> Inl e
         | Inr d \<Rightarrow>
             (let curr_index = (word_of_int d :: size_t)
              in case CheckCapacityAndResize this w of
                   Inl e \<Rightarrow> Inl e
                 | Inr w1 \<Rightarrow>
                     (case std_copy_backward (ArrayPtr_index w1 (Items this) curr_index)
                             (ptr_add (end_it w1 this) (- 1)) (end_it w1 this) (heap w1) of
                        Inl e \<Rightarrow> Inl e
                      | Inr (it0, h) \<Rightarrow>
                          (let it = ptr_add it0 (- 1)
                           in case read_arg h v of
                                Inl e \<Rightarrow> Inl e
                              | Inr x \<Rightarrow>
                                  (case store h it x of
                                     Inl e \<Rightarrow> Inl e
                                   | Inr h' \<Rightarrow> Inr (it, w1\<lparr>heap := h'\<rparr>)))))))"

text \<open>The overload \<^verbatim>\<open>Insert(ConstIterator, Type&&)\<close> has no range assertion.\<close>

definition Insert_move ::
    "nat \<Rightarrow> ptr \<Rightarrow> 'a arg \<Rightarrow> 'a::default world \<Rightarrow> error + ptr \<times> 'a world" where
  "Insert_move this pos v w =
     (if pos = cend w this then
        (case PushBack_move this v w of
           Inl e \<Rightarrow> Inl e
         | Inr w1 \<Rightarrow> Inr (ptr_add (end_it w1 this) (- 1), w1))
      else
        (case ptr_diff pos (Get w (Items this)) of
           Inl e \<Rightarrow> Inl e
         | Inr d \<Rightarrow>
             (let curr_index = (word_of_int d :: size_t)
              in case CheckCapacityAndResize this w of
                   Inl e \<Rightarrow> Inl e
                 | Inr w1 \<Rightarrow>
                     (case std_move_backward (ArrayPtr_index w1 (Items this) curr_index)
                             (ptr_add (end_it w1 this) (- 1)) (end_it w1 this) (heap w1) of
                        Inl e \<Rightarrow> Inl e
                      | Inr (it0, h) \<Rightarrow>
                          (let it = ptr_add it0 (- 1)
                           in case read_arg h v of
                                Inl e \<Rightarrow> Inl e
                              | Inr x \<Rightarrow>
                                  (case store h it x of
                                     Inl e \<Rightarrow> Inl e
                                   | Inr h' \<Rightarrow> Inr (it, w1\<lparr>heap := h'\<rparr>)))))))"

definition Erase :: "nat \<Rightarrow> ptr \<Rightarrow> 'a world \<Rightarrow> error + ptr \<times> 'a world" where
  "Erase this pos w =
     (if \<not> (ptr_le (begin_it w this) pos \<and> ptr_less pos (end_it w this))
      then Inl AssertionFailed
      else
        (case ptr_diff pos (begin_it w this) of
           Inl e \<Rightarrow> Inl e
         | Inr d \<Rightarrow>
             (let curr_index = (word_of_int d :: size_t)
              in case (if ptr_less pos (ptr_add (end_it w this) (- 1))
                       then std_move (ArrayPtr_index w (Items this) (curr_index + 1))
                              (end_it w this) (ArrayPtr_index w (Items this) curr_index) (heap w)
                       else Inr (pos, heap w)) of
                   Inl e \<Rightarrow> Inl e
                 | Inr (_, h) \<Rightarrow>
                     (let w1 = w\<lparr>heap := h\<rparr>;
                          w2 = w1\<lparr>size_m := (size_m w1)(this := size_m w1 this - 1)\<rparr>
                      in Inr (ArrayPtr_index w2 (Items this) curr_index, w2)))))"

text \<open>\<^verbatim>\<open>operator[]\<close> and \<^verbatim>\<open>At\<close> return a reference: the pointer to the slot.\<close>

definition Index :: "'a world \<Rightarrow> nat \<Rightarrow> size_t \<Rightarrow> error + ptr" where
  "Index w this index =
     (if \<not> (index < size_m w this) then Inl AssertionFailed
      else Inr (ArrayPtr_index w (Items this) index))"

text \<open>
  \<^verbatim>\<open>At\<close> can throw, and the caller can go on after catching: the result comes with the
  store the call leaves behind.
\<close>

definition At :: "nat \<Rightarrow> size_t \<Rightarrow> 'a world \<Rightarrow> (error + ptr) \<times> 'a world" where
  "At this index w =
     (if index \<ge> size_m w this then (Inl OutOfRange, w)
      else (Inr (ArrayPtr_index w (Items this) index), w))"

definition Clear :: "nat \<Rightarrow> 'a world \<Rightarrow> 'a world" where
  "Clear this w = w\<lparr>size_m := (size_m w)(this := 0)\<rparr>"

subsection \<open>What a vector holds\<close>

text \<open>
  \<open>buffer\<close> is the whole block a vector owns, \<open>elems\<close> its first \<open>size\<close> elements.
  \<open>wf\<close> is the representation invariant: the size is at most the capacity, and
  \<^verbatim>\<open>items_\<close> is null with capacity 0 or points to the start of a live block of exactly
  \<open>capacity\<close> elements, at an address the allocator has already handed out.
\<close>

definition buffer :: "'a world \<Rightarrow> nat \<Rightarrow> 'a list" where
  "buffer w this =
     (case base (raw_ptr w (Items this)) of
        None \<Rightarrow> []
      | Some a \<Rightarrow> (case heap w a of None \<Rightarrow> [] | Some xs \<Rightarrow> xs))"

definition elems :: "'a world \<Rightarrow> nat \<Rightarrow> 'a list" where
  "elems w this = take (unat (size_m w this)) (buffer w this)"

definition wf :: "'a world \<Rightarrow> nat \<Rightarrow> bool" where
  "wf w this =
     (size_m w this \<le> capacity_m w this \<and>
      offs (raw_ptr w (Items this)) = 0 \<and>
      (case base (raw_ptr w (Items this)) of
         None \<Rightarrow> capacity_m w this = 0
       | Some a \<Rightarrow>
           a < fresh w \<and>
           (case heap w a of
              None \<Rightarrow> False
            | Some xs \<Rightarrow> length xs = unat (capacity_m w this))))"

subsection \<open>Programs over vectors\<close>

text \<open>Consecutive \<^verbatim>\<open>PushBack\<close> calls, one for each value of a list.\<close>

fun PushBack_all :: "nat \<Rightarrow> 'a list \<Rightarrow> 'a::default world \<Rightarrow> error + 'a world" where
  "PushBack_all this [] w = Inr w"
| "PushBack_all this (x # xs) w =
     (case PushBack this (Value x) w of
        Inl e \<Rightarrow> Inl e
      | Inr w' \<Rightarrow> PushBack_all this xs w')"

text \<open>
  The public operations as a command language: \<open>run\<close> executes one call and yields the
  store it leaves, or the error it ends with. References and iterators that a call
  returns are dropped, since the caller can form any of them anyway.
\<close>

datatype 'a call =
    New_default
  | New_size size_t
  | New_fill size_t "'a arg"
  | New_init "'a list"
  | New_copy nat
  | New_move nat
  | New_reserve ReserveProxyObj
  | Call_copy_assign nat nat
  | Call_move_assign nat nat
  | Call_swap nat nat
  | Call_PushBack nat "'a arg"
  | Call_PushBack_move nat "'a arg"
  | Call_PopBack nat
  | Call_Insert nat ptr "'a arg"
  | Call_Insert_move nat ptr "'a arg"
  | Call_Erase nat ptr
  | Call_Index nat size_t
  | Call_At nat size_t
  | Call_Resize nat size_t
  | Call_Reserve nat size_t
  | Call_Clear nat

text \<open>
  The calls whose code reaches a \<^verbatim>\<open>new\<close>-expression: the constructors that build an
  \<^verbatim>\<open>ArrayPtr\<close> of a given size or call \<^verbatim>\<open>Reserve\<close>, the copy assignment (through
  the copy constructor), and the calls that may grow the buffer.
\<close>

fun allocates :: "'a call \<Rightarrow> bool" where
  "allocates New_default = False"
| "allocates (New_size sz) = True"
| "allocates (New_fill sz v) = True"
| "allocates (New_init init) = True"
| "allocates (New_copy other) = True"
| "allocates (New_move other) = False"
| "allocates (New_reserve rhs) = True"
| "allocates (Call_copy_assign this rhs) = True"
| "allocates (Call_move_assign this rhs) = False"
| "allocates (Call_swap this other) = False"
| "allocates (Call_PushBack this item) = True"
| "allocates (Call_PushBack_move this item) = True"
| "allocates (Call_PopBack this) = False"
| "allocates (Call_Insert this pos v) = True"
| "allocates (Call_Insert_move this pos v) = True"
| "allocates (Call_Erase this pos) = False"
| "allocates (Call_Index this index) = False"
| "allocates (Call_At this index) = False"
| "allocates (Call_Resize this new_size) = True"
| "allocates (Call_Reserve this new_capacity) = True"
| "allocates (Call_Clear this) = False"

definition drop_result :: "error + 'r \<times> 'a world \<Rightarrow> error + 'a world" where
  "drop_result r = (case r of Inl e \<Rightarrow> Inl e | Inr (_, w) \<Rightarrow> Inr w)"

fun run :: "'a::default call \<Rightarrow> 'a world \<Rightarrow> error + 'a world" where
  "run New_default w = Inr (snd (SimpleVector_default w))"
| "run (New_size sz) w = drop_result (SimpleVector_size sz w)"
| "run (New_fill sz v) w = drop_result (SimpleVector_fill sz v w)"
| "run (New_init init) w = drop_result (SimpleVector_init init w)"
| "run (New_copy other) w = drop_result (SimpleVector_copy other w)"
| "run (New_move other) w = drop_result (SimpleVector_move other w)"
| "run (New_reserve rhs) w = drop_result (SimpleVector_reserve rhs w)"
| "run (Call_copy_assign this rhs) w = copy_assign this rhs w"
| "run (Call_move_assign this rhs) w = move_assign this rhs w"
| "run (Call_swap this other) w = Inr (swap_v this other w)"
| "run (Call_PushBack this item) w = PushBack this item w"
| "run (Call_PushBack_move this item) w = PushBack_move this item w"
| "run (Call_PopBack this) w = PopBack this w"
| "run (Call_Insert this pos v) w = drop_result (Insert this pos v w)"
| "run (Call_Insert_move this pos v) w = drop_result (Insert_move this pos v w)"
| "run (Call_Erase this pos) w = drop_result (Erase this pos w)"
| "run (Call_Index this index) w =
     (case Index w this index of Inl e \<Rightarrow> Inl e | Inr _ \<Rightarrow> Inr w)"
| "run (Call_At this index) w =
     (case At this index w of (Inl e, _) \<Rightarrow> Inl e | (Inr _, w') \<Rightarrow> Inr w')"
| "run (Call_Resize this new_size) w = Resize this new_size w"
| "run (Call_Reserve this new_capacity) w = Reserve this new_capacity w"
| "run (Call_Clear this) w = Inr (Clear this w)"

text \<open>
  The stores a program can reach from an empty store, whatever the size of its free store,
  by calls that return. (A program that catches an exception goes on from the store
  before the call: \<^verbatim>\<open>At\<close> only reads, and a call that allocates evaluates its
  \<^verbatim>\<open>new\<close>-expression before its first write.)
\<close>

inductive reachable :: "'a::default world \<Rightarrow> bool" where
  start: "reachable (init_world m)"
| call: "reachable w \<Longrightarrow> run c w = Inr w' \<Longrightarrow> reachable w'"

subsection \<open>Example stores\<close>

text \<open>The examples use \<^verbatim>\<open>SimpleVector<int>\<close>; \<^verbatim>\<open>int{}\<close> is 0.\<close>

instantiation int :: default
begin

definition default_int :: int where
  "default_int = 0"

instance ..

end

text \<open>
  In \<open>demo_world\<close> the vector 0 holds \<open>[1, 2, 3]\<close> in a block of capacity 4, as after
  \<^verbatim>\<open>SimpleVector<int> v; v.PushBack(1); v.PushBack(2); v.PushBack(3);\<close> on a machine whose
  free store holds 100 elements. In \<open>full_world\<close> it holds \<open>[1, 2]\<close> in a block of
  capacity 2, as one call earlier.
\<close>

definition demo_world :: "int world" where
  "demo_world =
     \<lparr>heap = (\<lambda>_. None)(2 \<mapsto> [1, 2, 3, 0]), fresh = 3, avail = 96, next_obj = 4,
      raw_ptr = (\<lambda>_. nullptr)(Items 0 := Ptr (Some 2) 0),
      size_m = (\<lambda>_. 0)(0 := 3), capacity_m = (\<lambda>_. 0)(0 := 4)\<rparr>"

definition full_world :: "int world" where
  "full_world =
     \<lparr>heap = (\<lambda>_. None)(1 \<mapsto> [1, 2]), fresh = 2, avail = 98, next_obj = 3,
      raw_ptr = (\<lambda>_. nullptr)(Items 0 := Ptr (Some 1) 0),
      size_m = (\<lambda>_. 0)(0 := 2), capacity_m = (\<lambda>_. 0)(0 := 2)\<rparr>"

section \<open>Auxiliary facts\<close>

subsection \<open>Loads, stores and the copy loops\<close>

lemma load_Some:
  "h a = Some xs \<Longrightarrow> i < length xs \<Longrightarrow> load h (Ptr (Some a) (int i)) = Inr (xs ! i)"
  by (simp add: load_def)

lemma store_Some:
  "h a = Some xs \<Longrightarrow> i < length xs \<Longrightarrow>
   store h (Ptr (Some a) (int i)) x = Inr (h(a \<mapsto> xs[i := x]))"
  by (simp add: store_def)

lemma ptr_add_Suc: "ptr_add (Ptr b (int i)) 1 = Ptr b (int (Suc i))"
  by (simp add: ptr_add_def)

lemma copy_up_blocks:
  "h a = Some xs \<Longrightarrow> h b = Some ys \<Longrightarrow> a \<noteq> b \<or> (xs = ys \<and> j \<le> i) \<Longrightarrow>
   i + n \<le> length xs \<Longrightarrow> j + n \<le> length ys \<Longrightarrow>
   copy_up n (Ptr (Some a) (int i)) (Ptr (Some b) (int j)) h =
     Inr (h(b \<mapsto> take j ys @ take n (drop i xs) @ drop (j + n) ys))"
proof (induction n arbitrary: i j h xs ys)
  case 0
  then show ?case by (simp add: fun_upd_idem)
next
  case (Suc n)
  let ?ys = "ys[j := xs ! i]"
  let ?h = "h(b \<mapsto> ?ys)"
  let ?xs = "if a = b then ?ys else xs"
  have ld: "load h (Ptr (Some a) (int i)) = Inr (xs ! i)"
    using Suc.prems by (simp add: load_Some)
  have st: "store h (Ptr (Some b) (int j)) (xs ! i) = Inr ?h"
    using Suc.prems by (simp add: store_Some)
  have a: "?h a = Some ?xs" using Suc.prems by auto
  have b: "?h b = Some ?ys" by simp
  have c: "a \<noteq> b \<or> (?xs = ?ys \<and> Suc j \<le> Suc i)" using Suc.prems by auto
  have "copy_up n (Ptr (Some a) (int (Suc i))) (Ptr (Some b) (int (Suc j))) ?h =
     Inr (?h(b \<mapsto> take (Suc j) ?ys @ take n (drop (Suc i) ?xs) @ drop (Suc j + n) ?ys))"
    using Suc.prems by (intro Suc.IH [OF a b c]) auto
  moreover have "drop (Suc i) ?xs = drop (Suc i) xs"
    using Suc.prems by auto
  moreover have "take (Suc j) ?ys = take j ys @ [xs ! i]"
    using Suc.prems by (simp add: take_Suc_conv_app_nth)
  moreover have "take (Suc n) (drop i xs) = xs ! i # take n (drop (Suc i) xs)"
    using Suc.prems by (simp add: Cons_nth_drop_Suc [symmetric])
  ultimately show ?case
    by (simp add: ld st ptr_add_Suc fun_eq_iff del: of_nat_Suc)
qed

lemma copy_down_block:
  "h a = Some xs \<Longrightarrow> i \<le> j \<Longrightarrow> j + n \<le> length xs \<Longrightarrow>
   copy_down n (Ptr (Some a) (int (i + n))) (Ptr (Some a) (int (j + n))) h =
     Inr (h(a \<mapsto> take j xs @ take n (drop i xs) @ drop (j + n) xs))"
proof (induction n arbitrary: h xs)
  case 0
  then show ?case by (simp add: fun_upd_idem)
next
  case (Suc n)
  let ?xs = "xs[j + n := xs ! (i + n)]"
  let ?h = "h(a \<mapsto> ?xs)"
  have ld: "load h (Ptr (Some a) (int (i + n))) = Inr (xs ! (i + n))"
    by (rule load_Some) (use Suc.prems in auto)
  have st: "store h (Ptr (Some a) (int (j + n))) (xs ! (i + n)) = Inr ?h"
    by (rule store_Some) (use Suc.prems in auto)
  have "copy_down n (Ptr (Some a) (int (i + n))) (Ptr (Some a) (int (j + n))) ?h =
     Inr (?h(a \<mapsto> take j ?xs @ take n (drop i ?xs) @ drop (j + n) ?xs))"
    using Suc.prems by (intro Suc.IH) auto
  moreover have "take n (drop i ?xs) = take n (drop i xs)"
    using Suc.prems by (simp add: drop_update_swap)
  moreover have "drop (j + n) ?xs = xs ! (i + n) # drop (j + Suc n) xs"
    using Suc.prems by (simp add: Cons_nth_drop_Suc [symmetric] drop_update_swap upd_conv_take_nth_drop)
  moreover have "take (Suc n) (drop i xs) = take n (drop i xs) @ [xs ! (i + n)]"
    using Suc.prems by (simp add: take_Suc_conv_app_nth)
  moreover have "ptr_add (Ptr (Some a) (int (i + Suc n))) (- 1) = Ptr (Some a) (int (i + n))"
    by (simp add: ptr_add_def)
  moreover have "ptr_add (Ptr (Some a) (int (j + Suc n))) (- 1) = Ptr (Some a) (int (j + n))"
    by (simp add: ptr_add_def)
  ultimately show ?case
    by (simp add: ld st fun_eq_iff del: of_nat_Suc of_nat_add add_Suc_right)
qed

lemma Resize_loop_block:
  "h a = Some xs \<Longrightarrow> i \<le> j \<Longrightarrow> j \<le> length xs \<Longrightarrow>
   Resize_loop (Ptr (Some a) (int i)) (Ptr (Some a) (int j)) h =
     Inr (h(a \<mapsto> take i xs @ replicate (j - i) default @ drop j xs))"
proof (induction "j - i" arbitrary: i h xs)
  case 0
  then show ?case
    by (subst Resize_loop.simps) (simp add: ptr_less_def fun_upd_idem)
next
  case (Suc n)
  let ?xs = "xs[i := default]"
  let ?h = "h(a \<mapsto> ?xs)"
  have lt: "i < j" using Suc.hyps by simp
  have st: "store h (Ptr (Some a) (int i)) default = Inr ?h"
    using Suc.prems lt by (simp add: store_Some)
  have "Resize_loop (Ptr (Some a) (int (Suc i))) (Ptr (Some a) (int j)) ?h =
     Inr (?h(a \<mapsto> take (Suc i) ?xs @ replicate (j - Suc i) default @ drop j ?xs))"
    using Suc.prems Suc.hyps lt by (intro Suc.hyps(1)) auto
  moreover have "take (Suc i) ?xs = take i xs @ [default]"
    using Suc.prems lt by (simp add: take_Suc_conv_app_nth)
  moreover have "drop j ?xs = drop j xs"
    using lt by simp
  moreover have "replicate (j - i) default = (default :: 'a) # replicate (j - Suc i) default"
    using lt by (metis Suc.hyps(2) Suc_diff_Suc replicate_Suc)
  ultimately show ?case
    by (subst Resize_loop.simps) (simp add: ptr_less_def lt st ptr_add_Suc fun_eq_iff del: of_nat_Suc)
qed

lemma copy_up_fresh:
  "h a = Some xs \<Longrightarrow> h b = Some ys \<Longrightarrow> a \<noteq> b \<Longrightarrow> n \<le> length xs \<Longrightarrow> n \<le> length ys \<Longrightarrow>
   copy_up n (Ptr (Some a) 0) (Ptr (Some b) 0) h = Inr (h(b \<mapsto> take n xs @ drop n ys))"
  using copy_up_blocks [of h a xs b ys 0 0 n] by simp

lemma wf_cases:
  assumes "wf w this"
  obtains (null) "raw_ptr w (Items this) = Ptr None 0" "capacity_m w this = 0" "size_m w this = 0"
    | (block) a xs where "raw_ptr w (Items this) = Ptr (Some a) 0" "a < fresh w"
        "heap w a = Some xs" "length xs = unat (capacity_m w this)"
        "unat (size_m w this) \<le> length xs"
proof (cases "raw_ptr w (Items this)")
  case (Ptr b k)
  show ?thesis
  proof (cases b)
    case None
    with Ptr assms show ?thesis
      by (intro null) (auto simp: wf_def)
  next
    case (Some a)
    with Ptr assms obtain xs where "heap w a = Some xs" "length xs = unat (capacity_m w this)"
      by (auto simp: wf_def split: option.splits)
    with Ptr Some assms show ?thesis
      by (intro block [of a xs]) (auto simp: wf_def word_le_nat_alt)
  qed
qed


lemmas grow_defs = new_obj_def ArrayPtr_size_def new_array_def can_allocate_def std_move_def
        std_copy_def begin_it_def end_it_def Get_def ptr_diff_def ptr_add_def ArrayPtr_swap_def
        ArrayPtr_dtor_def delete_array_def Let_def nullptr_def wf_def buffer_def elems_def

lemma Reserve_grow:
  assumes "wf w this" "capacity_m w this < n" "can_allocate n w"
  shows "\<exists>w'. Reserve this n w = Inr w' \<and> wf w' this \<and> size_m w' this = size_m w this \<and>
           capacity_m w' this = n \<and>
           buffer w' this = elems w this @ replicate (unat n - unat (size_m w this)) default \<and>
           avail w' + unat n = avail w + unat (capacity_m w this) \<and>
           (\<forall>a. base (raw_ptr w (Items this)) = Some a \<longrightarrow> heap w' a = None)"
  using assms(1)
proof (cases rule: wf_cases)
  case null
  with assms(2,3) show ?thesis
    by (simp add: Reserve_def grow_defs)
next
  case (block a xs)
  with assms(2,3) show ?thesis
    by (simp add: Reserve_def grow_defs copy_up_fresh word_less_nat_alt word_le_nat_alt)
qed

lemma can_allocate_avail:
  "avail w' = avail w \<Longrightarrow> can_allocate n w' = can_allocate n w"
  by (simp add: can_allocate_def)

lemma ArrayPtr_size_fails:
  assumes "0 < n" "\<not> can_allocate n w" "avail w' = avail w"
  shows "ArrayPtr_size r n w' = Inl BadAlloc"
  using assms can_allocate_avail [of "w'\<lparr>raw_ptr := (raw_ptr w')(r := nullptr)\<rparr>" w n]
  by (auto simp: ArrayPtr_size_def new_array_def Let_def)

lemma Reserve_fails:
  assumes "capacity_m w this < n" "\<not> can_allocate n w"
  shows "Reserve this n w = Inl BadAlloc"
proof -
  have "0 < n"
    using assms(1) by (simp add: word_less_nat_alt)
  with assms show ?thesis
    by (simp add: Reserve_def new_obj_def ArrayPtr_size_fails [where w = w])
qed

lemma new_capacity_bounds:
  fixes c n :: size_t
  assumes "c < n"
  shows "n \<le> max n (if c = 0 then 1 else c * 2)" "0 < max n (if c = 0 then 1 else c * 2)"
    "c < max n (if c = 0 then 1 else c * 2)"
  using assms by (auto simp: max_def word_gt_0 not_le dest: less_le_trans)

lemma Resize_grow:
  assumes "wf w this" "capacity_m w this < n"
    "can_allocate (max n (if capacity_m w this = 0 then 1 else capacity_m w this * 2)) w"
  shows "\<exists>w'. Resize this n w = Inr w' \<and> wf w' this \<and> size_m w' this = n \<and>
           capacity_m w' this =
             max n (if capacity_m w this = 0 then 1 else capacity_m w this * 2) \<and>
           buffer w' this = elems w this @
             replicate (unat (capacity_m w' this) - unat (size_m w this)) default \<and>
           avail w' + unat (capacity_m w' this) = avail w + unat (capacity_m w this) \<and>
           (\<forall>a. base (raw_ptr w (Items this)) = Some a \<longrightarrow> heap w' a = None)"
proof -
  define c where "c = max n (if capacity_m w this = 0 then 1 else capacity_m w this * 2)"
  have c: "n \<le> c" "0 < c" "capacity_m w this < c" "can_allocate c w"
    unfolding c_def using new_capacity_bounds [OF assms(2)] assms(3) by auto
  from assms(1) show ?thesis
  proof (cases rule: wf_cases)
    case null
    with assms(2) c show ?thesis
      unfolding Resize_def c_def [symmetric]
      by (simp add: grow_defs)
  next
    case (block a xs)
    with assms(2) c show ?thesis
      unfolding Resize_def c_def [symmetric]
      by (simp add: grow_defs copy_up_fresh word_less_nat_alt word_le_nat_alt)
  qed
qed

lemma Resize_fails:
  assumes "capacity_m w this < n"
    "\<not> can_allocate (max n (if capacity_m w this = 0 then 1 else capacity_m w this * 2)) w"
  shows "Resize this n w = Inl BadAlloc"
proof -
  define c where "c = max n (if capacity_m w this = 0 then 1 else capacity_m w this * 2)"
  have c: "0 < c" "\<not> can_allocate c w"
    unfolding c_def using new_capacity_bounds [OF assms(1)] assms(2) by auto
  with assms(1) show ?thesis
    unfolding Resize_def c_def [symmetric]
    by (simp add: new_obj_def ArrayPtr_size_fails [where w = w])
qed

lemma Resize_expose:
  assumes "wf w this" "n \<le> capacity_m w this" "size_m w this < n"
  shows "\<exists>w'. Resize this n w = Inr w' \<and> wf w' this \<and> size_m w' this = n \<and>
           capacity_m w' this = capacity_m w this \<and>
           raw_ptr w' (Items this) = raw_ptr w (Items this) \<and>
           buffer w' this = elems w this @
             replicate (unat n - unat (size_m w this)) default @ drop (unat n) (buffer w this)"
  using assms(1)
proof (cases rule: wf_cases)
  case null
  with assms show ?thesis by simp
next
  case (block a xs)
  have "Resize_loop (Ptr (Some a) (int (unat (size_m w this)))) (Ptr (Some a) (int (unat n)))
          (heap w) =
        Inr ((heap w)(a \<mapsto> take (unat (size_m w this)) xs @
               replicate (unat n - unat (size_m w this)) default @ drop (unat n) xs))"
    using block assms(2,3) by (intro Resize_loop_block) (auto simp: word_less_nat_alt word_le_nat_alt)
  with block assms show ?thesis
    by (simp add: Resize_def grow_defs word_less_nat_alt word_le_nat_alt not_less)
qed

lemma Resize_shrink:
  assumes "n \<le> size_m w this" "size_m w this \<le> capacity_m w this"
  shows "Resize this n w = Inr (w\<lparr>size_m := (size_m w)(this := n)\<rparr>)"
  using assms by (auto simp: Resize_def not_less)

lemma wf_length_buffer: "wf w this \<Longrightarrow> length (buffer w this) = unat (capacity_m w this)"
  by (erule wf_cases) (simp_all add: buffer_def)

lemma wf_size_le: "wf w this \<Longrightarrow> unat (size_m w this) \<le> unat (capacity_m w this)"
  by (simp add: wf_def word_le_nat_alt)

lemma length_elems: "wf w this \<Longrightarrow> length (elems w this) = unat (size_m w this)"
  using wf_length_buffer [of w this] wf_size_le [of w this] by (simp add: elems_def)

lemma unat_plus_one:
  fixes s :: size_t
  shows "s + 1 \<noteq> 0 \<Longrightarrow> unat (s + 1) = Suc (unat s)"
  using unatSuc [of s] by (simp add: add.commute)

lemma CheckCapacityAndResize_spec:
  assumes "wf w this" "size_m w this + 1 \<noteq> 0"
    "size_m w this < capacity_m w this \<or>
     can_allocate (max (size_m w this + 1)
       (if capacity_m w this = 0 then 1 else capacity_m w this * 2)) w"
  shows "\<exists>w1. CheckCapacityAndResize this w = Inr w1 \<and> wf w1 this \<and>
           size_m w1 this = size_m w this + 1 \<and>
           capacity_m w1 this =
             (if size_m w this = capacity_m w this
              then max (size_m w this + 1)
                     (if capacity_m w this = 0 then 1 else capacity_m w this * 2)
              else capacity_m w this) \<and>
           take (unat (size_m w this)) (buffer w1 this) = elems w this \<and>
           avail w1 + unat (capacity_m w1 this) = avail w + unat (capacity_m w this) \<and>
           (size_m w this < capacity_m w this \<longrightarrow>
              w1 = w\<lparr>size_m := (size_m w)(this := size_m w this + 1)\<rparr>) \<and>
           (size_m w this = capacity_m w this \<longrightarrow>
              (\<forall>a. base (raw_ptr w (Items this)) = Some a \<longrightarrow> heap w1 a = None))"
proof (cases "size_m w this = capacity_m w this")
  case True
  have lt: "capacity_m w this < size_m w this + 1"
    using assms(2) True by (simp add: word_less_nat_alt unat_plus_one)
  have al: "can_allocate (max (size_m w this + 1)
       (if capacity_m w this = 0 then 1 else capacity_m w this * 2)) w"
    using assms(3) True by simp
  from Resize_grow [OF assms(1) lt al] True length_elems [OF assms(1)] show ?thesis
    by (auto simp: CheckCapacityAndResize_def)
next
  case False
  with assms(1) have lt: "size_m w this < capacity_m w this"
    by (auto simp: wf_def)
  then have "unat (size_m w this + 1) \<le> unat (capacity_m w this)"
    using assms(2) by (simp add: word_less_nat_alt unat_plus_one)
  with assms(1) lt have "wf (w\<lparr>size_m := (size_m w)(this := size_m w this + 1)\<rparr>) this"
    by (auto simp: wf_def word_le_nat_alt split: option.splits)
  moreover from lt have "\<not> capacity_m w this \<le> size_m w this"
    by simp
  ultimately show ?thesis
    using lt False
    by (auto simp: CheckCapacityAndResize_def elems_def buffer_def split: option.splits)
qed

lemma read_arg_Value [simp]: "read_arg h (Value x) = Inr x"
  by (simp add: read_arg_def)

lemma readable_Value [simp]: "readable h (Value x)"
  by (simp add: readable_def)

lemma readableE:
  assumes "readable h item"
  obtains x where "read_arg h item = Inr x"
  using assms by (auto simp: readable_def split: sum.splits)

lemma PushBack_spec:
  assumes "wf w this" "size_m w this + 1 \<noteq> 0"
    "size_m w this < capacity_m w this \<or>
     can_allocate (max (size_m w this + 1)
       (if capacity_m w this = 0 then 1 else capacity_m w this * 2)) w"
    "read_arg (heap w) item = Inr x" "size_m w this < capacity_m w this \<or> is_Value item"
  shows "\<exists>w'. PushBack this item w = Inr w' \<and> wf w' this \<and>
           size_m w' this = size_m w this + 1 \<and>
           capacity_m w' this =
             (if size_m w this = capacity_m w this
              then max (size_m w this + 1)
                     (if capacity_m w this = 0 then 1 else capacity_m w this * 2)
              else capacity_m w this) \<and>
           elems w' this = elems w this @ [x] \<and>
           avail w' + unat (capacity_m w' this) = avail w + unat (capacity_m w this) \<and>
           (size_m w this < capacity_m w this \<longrightarrow>
              raw_ptr w' (Items this) = raw_ptr w (Items this))"
proof -
  from CheckCapacityAndResize_spec [OF assms(1-3)] obtain w1 where
    ccr: "CheckCapacityAndResize this w = Inr w1" and wf1: "wf w1 this" and
    sz: "size_m w1 this = size_m w this + 1" and
    cap: "capacity_m w1 this =
             (if size_m w this = capacity_m w this
              then max (size_m w this + 1)
                     (if capacity_m w this = 0 then 1 else capacity_m w this * 2)
              else capacity_m w this)" and
    tk: "take (unat (size_m w this)) (buffer w1 this) = elems w this" and
    av: "avail w1 + unat (capacity_m w1 this) = avail w + unat (capacity_m w this)" and
    same: "size_m w this < capacity_m w this \<longrightarrow>
              w1 = w\<lparr>size_m := (size_m w)(this := size_m w this + 1)\<rparr>"
    by blast
  have s1: "unat (size_m w1 this) = Suc (unat (size_m w this))"
    using sz assms(2) by (simp add: unat_plus_one)
  have rd: "read_arg (heap w1) item = Inr x"
  proof (cases "size_m w this < capacity_m w this")
    case True
    with same have "w1 = w\<lparr>size_m := (size_m w)(this := size_m w this + 1)\<rparr>" by simp
    then have "heap w1 = heap w" by simp
    with assms(4) show ?thesis by simp
  next
    case False
    with assms(5) have "is_Value item" by simp
    with assms(4) show ?thesis
      by (cases item) (simp_all add: read_arg_def)
  qed
  from wf1 show ?thesis
  proof (cases rule: wf_cases)
    case null
    with s1 show ?thesis by simp
  next
    case (block a ys)
    have raw: "size_m w this < capacity_m w this \<longrightarrow>
              raw_ptr w1 (Items this) = raw_ptr w (Items this)"
    proof
      assume "size_m w this < capacity_m w this"
      with same have "w1 = w\<lparr>size_m := (size_m w)(this := size_m w this + 1)\<rparr>" by simp
      then show "raw_ptr w1 (Items this) = raw_ptr w (Items this)"
        by simp
    qed
    have tk': "take (unat (size_m w this)) ys = elems w this"
      using tk block by (simp add: buffer_def)
    have "store (heap w1) (Ptr (Some a) (int (unat (size_m w this)))) x =
            Inr ((heap w1)(a \<mapsto> ys[unat (size_m w this) := x]))"
      using block s1 by (intro store_Some) auto
    with block s1 sz cap ccr raw tk' rd av show ?thesis
      by (simp add: PushBack_def ArrayPtr_index_def ptr_add_def wf_def elems_def buffer_def
          take_Suc_conv_app_nth word_le_nat_alt)
  qed
qed

lemma copy_down_shift:
  assumes "h a = Some xs" "i \<le> s" "Suc s \<le> length xs"
  shows "copy_down (s - i) (Ptr (Some a) (int s)) (Ptr (Some a) (int (Suc s))) h =
     Inr (h(a \<mapsto> take (Suc i) xs @ take (s - i) (drop i xs) @ drop (Suc s) xs))"
  using copy_down_block [of h a xs i "Suc i" "s - i"] assms by simp

lemma copy_up_shift:
  assumes "h a = Some xs" "Suc i \<le> s" "s \<le> length xs"
  shows "copy_up (s - Suc i) (Ptr (Some a) (int (Suc i))) (Ptr (Some a) (int i)) h =
     Inr (h(a \<mapsto> take i xs @ take (s - Suc i) (drop (Suc i) xs) @ drop (s - 1) xs))"
  using copy_up_blocks [of h a xs a xs i "Suc i" "s - Suc i"] assms by simp

lemma insert_list:
  assumes "i \<le> s" "s < length ys"
  shows "take (Suc s) ((take (Suc i) ys @ take (s - i) (drop i ys) @ drop (Suc s) ys)[i := x]) =
           take i (take s ys) @ x # drop i (take s ys)"
proof -
  define A where "A = take i ys @ x # take (s - i) (drop i ys)"
  have "(take (Suc i) ys @ take (s - i) (drop i ys) @ drop (Suc s) ys)[i := x] =
        A @ drop (Suc s) ys"
    using assms by (simp add: A_def list_update_append take_Suc_conv_app_nth)
  moreover have "length A = Suc s"
    using assms by (simp add: A_def)
  moreover have "take i (take s ys) @ x # drop i (take s ys) = A"
    using assms by (simp add: A_def drop_take min_def)
  ultimately show ?thesis
    by simp
qed

lemma erase_list:
  assumes "Suc i \<le> s" "s \<le> length xs"
  shows "take (s - 1) (take i xs @ take (s - Suc i) (drop (Suc i) xs) @ drop (s - 1) xs) =
           take i (take s xs) @ drop (Suc i) (take s xs)"
proof -
  define A where "A = take i xs @ take (s - Suc i) (drop (Suc i) xs)"
  have len: "length A = s - 1"
    using assms by (simp add: A_def)
  have rhs: "take i (take s xs) @ drop (Suc i) (take s xs) = A"
    using assms by (simp add: A_def drop_take min_def)
  have lhs: "take i xs @ take (s - Suc i) (drop (Suc i) xs) @ drop (s - 1) xs =
                 A @ drop (s - 1) xs"
    by (simp add: A_def)
  have "take (s - 1) (A @ drop (s - 1) xs) = A"
    using len by simp
  then show ?thesis
    unfolding lhs rhs .
qed

lemma uint_index:
  "i < 2 ^ 64 \<Longrightarrow> uint (of_nat i :: size_t) = int i"
  by (simp add: uint_nat unat_of_nat)

lemma unat_lt_max: "unat (s :: size_t) < 2 ^ 64"
  using unsigned_less [of s, where 'a = nat] by simp

lemma wf_begin:
  "wf w this \<Longrightarrow> ptr_add (begin_it w this) (int i) = Ptr (base (raw_ptr w (Items this))) (int i)"
  by (simp add: wf_def begin_it_def Get_def ptr_add_def)

lemma Erase_spec:
  assumes "wf w this" "i < unat (size_m w this)"
  shows "\<exists>w'. Erase this (ptr_add (begin_it w this) (int i)) w =
                 Inr (ptr_add (begin_it w' this) (int i), w') \<and>
           wf w' this \<and> size_m w' this = size_m w this - 1 \<and>
           capacity_m w' this = capacity_m w this \<and>
           raw_ptr w' (Items this) = raw_ptr w (Items this) \<and>
           elems w' this = take i (elems w this) @ drop (Suc i) (elems w this)"
  using assms(1)
proof (cases rule: wf_cases)
  case null
  with assms(2) show ?thesis by simp
next
  case (block a xs)
  define s where "s = unat (size_m w this)"
  have s: "i < s" "s \<le> length xs" "s < 2 ^ 64" "i < 2 ^ 64" "Suc i < 2 ^ 64"
    using assms(2) block unat_lt_max [of "size_m w this"] by (auto simp: s_def)
  have nz: "size_m w this \<noteq> 0"
    using assms(2) by auto
  have s1: "unat (size_m w this - 1) = s - 1"
    using nz by (simp add: unat_minus_one s_def)
  have us: "uint (size_m w this) = int s"
    by (simp add: s_def)
  have ci: "uint (of_nat i :: size_t) = int i"
    using s by (simp add: uint_index)
  have ci1: "uint ((of_nat i :: size_t) + 1) = int (Suc i)"
    using s uint_index [of "Suc i"] by (simp add: add.commute)
  have pos: "ptr_add (begin_it w this) (int i) = Ptr (Some a) (int i)"
    using block by (simp add: wf_begin [OF assms(1)])
  have E: "elems w this = take s xs"
    using block by (simp add: elems_def buffer_def s_def)
  show ?thesis
  proof (cases "Suc i < s")
    case True
    define ys where "ys = take i xs @ take (s - Suc i) (drop (Suc i) xs) @ drop (s - 1) xs"
    define w' where "w' = w\<lparr>heap := (heap w)(a \<mapsto> ys),
                             size_m := (size_m w)(this := size_m w this - 1)\<rparr>"
    have cp: "copy_up (s - Suc i) (Ptr (Some a) (int (Suc i))) (Ptr (Some a) (int i)) (heap w) =
       Inr ((heap w)(a \<mapsto> ys))"
      unfolding ys_def using block s True by (intro copy_up_shift) auto
    have n: "nat (int s - int (Suc i)) = s - Suc i"
      by simp
    have len: "length ys = length xs"
      using s True by (simp add: ys_def)
    have er: "Erase this (Ptr (Some a) (int i)) w = Inr (Ptr (Some a) (int i), w')"
      using block s True
      by (simp add: Erase_def begin_it_def end_it_def Get_def ptr_le_def ptr_less_def
          ptr_diff_def ArrayPtr_index_def std_move_def std_copy_def Let_def ptr_add_def
          us ci ci1 n cp w'_def del: of_nat_Suc)
    have "elems w' this = take (s - 1) ys"
      using block s1 by (simp add: elems_def buffer_def w'_def)
    also have "\<dots> = take i (take s xs) @ drop (Suc i) (take s xs)"
      unfolding ys_def using True s by (intro erase_list) auto
    finally have el: "elems w' this = take i (elems w this) @ drop (Suc i) (elems w this)"
      by (simp only: E)
    have wf': "wf w' this"
      using block s s1 len by (simp add: wf_def w'_def word_le_nat_alt s_def)
    have rest: "size_m w' this = size_m w this - 1" "capacity_m w' this = capacity_m w this"
       "raw_ptr w' (Items this) = raw_ptr w (Items this)"
       "ptr_add (begin_it w' this) (int i) = Ptr (Some a) (int i)"
      using block by (simp_all add: w'_def begin_it_def Get_def ptr_add_def)
    show ?thesis
      unfolding pos using er el wf' rest by (intro exI [of _ w']) simp
  next
    case False
    with s have eq: "s = Suc i" by simp
    define w' where "w' = w\<lparr>size_m := (size_m w)(this := size_m w this - 1)\<rparr>"
    have er: "Erase this (Ptr (Some a) (int i)) w = Inr (Ptr (Some a) (int i), w')"
      using block s False
      by (simp add: Erase_def begin_it_def end_it_def Get_def ptr_le_def ptr_less_def
          ptr_diff_def ArrayPtr_index_def Let_def ptr_add_def
          us ci ci1 w'_def del: of_nat_Suc)
    have "elems w' this = take i xs"
      using block s1 eq by (simp add: elems_def buffer_def w'_def)
    also have "\<dots> = take i (take s xs) @ drop (Suc i) (take s xs)"
      using eq s by simp
    finally have el: "elems w' this = take i (elems w this) @ drop (Suc i) (elems w this)"
      by (simp only: E)
    have wf': "wf w' this"
      using block s s1 by (simp add: wf_def w'_def word_le_nat_alt s_def)
    have rest: "size_m w' this = size_m w this - 1" "capacity_m w' this = capacity_m w this"
       "raw_ptr w' (Items this) = raw_ptr w (Items this)"
       "ptr_add (begin_it w' this) (int i) = Ptr (Some a) (int i)"
      using block by (simp_all add: w'_def begin_it_def Get_def ptr_add_def)
    show ?thesis
      unfolding pos using er el wf' rest by (intro exI [of _ w']) simp
  qed
qed

lemma load_update_defined:
  assumes "load h p = Inr x" "h a = Some ys" "length zs = length ys"
  shows "\<exists>y. load (h(a \<mapsto> zs)) p = Inr y"
  using assms by (auto simp: load_def split: option.splits if_splits)

lemma Insert_mid:
  assumes "wf w this" "i < unat (size_m w this)" "size_m w this + 1 \<noteq> 0"
    "size_m w this < capacity_m w this \<or>
     can_allocate (max (size_m w this + 1)
       (if capacity_m w this = 0 then 1 else capacity_m w this * 2)) w"
    "readable (heap w) item" "size_m w this < capacity_m w this \<or> is_Value item"
  shows "\<exists>w' y. Insert this (ptr_add (begin_it w this) (int i)) item w =
                 Inr (ptr_add (begin_it w' this) (int i), w') \<and>
           wf w' this \<and> size_m w' this = size_m w this + 1 \<and>
           capacity_m w' this =
             (if size_m w this = capacity_m w this
              then max (size_m w this + 1)
                     (if capacity_m w this = 0 then 1 else capacity_m w this * 2)
              else capacity_m w this) \<and>
           elems w' this = take i (elems w this) @ y # drop i (elems w this) \<and>
           (\<forall>v. item = Value v \<longrightarrow> y = v) \<and>
           avail w' + unat (capacity_m w' this) = avail w + unat (capacity_m w this) \<and>
           (size_m w this < capacity_m w this \<longrightarrow>
              raw_ptr w' (Items this) = raw_ptr w (Items this))"
proof -
  define s where "s = unat (size_m w this)"
  from CheckCapacityAndResize_spec [OF assms(1,3,4)] obtain w1 where
    ccr: "CheckCapacityAndResize this w = Inr w1" and wf1: "wf w1 this" and
    sz: "size_m w1 this = size_m w this + 1" and
    cap: "capacity_m w1 this =
             (if size_m w this = capacity_m w this
              then max (size_m w this + 1)
                     (if capacity_m w this = 0 then 1 else capacity_m w this * 2)
              else capacity_m w this)" and
    tk: "take s (buffer w1 this) = elems w this" and
    av: "avail w1 + unat (capacity_m w1 this) = avail w + unat (capacity_m w this)" and
    same: "size_m w this < capacity_m w this \<longrightarrow>
              w1 = w\<lparr>size_m := (size_m w)(this := size_m w this + 1)\<rparr>"
    unfolding s_def by blast
  have s1: "unat (size_m w1 this) = Suc s"
    using sz assms(3) by (simp add: unat_plus_one s_def)
  have s: "i < s" "s < 2 ^ 64" "i < 2 ^ 64"
    using assms(2) unat_lt_max [of "size_m w this"] by (auto simp: s_def)
  have "int (unat (size_m w1 this)) = int (Suc s)"
    by (simp only: s1)
  then have us: "uint (size_m w this) = int s" "uint (size_m w1 this) = int (Suc s)"
    by (simp_all add: s_def del: of_nat_Suc)
  have ci: "uint (of_nat i :: size_t) = int i"
    using s by (simp add: uint_index)
  have off: "offs (raw_ptr w (Items this)) = 0"
    using assms(1) by (simp add: wf_def)
  have raw: "size_m w this < capacity_m w this \<longrightarrow>
              raw_ptr w1 (Items this) = raw_ptr w (Items this)"
  proof
    assume "size_m w this < capacity_m w this"
    with same have "w1 = w\<lparr>size_m := (size_m w)(this := size_m w this + 1)\<rparr>" by simp
    then show "raw_ptr w1 (Items this) = raw_ptr w (Items this)"
      by simp
  qed
  from wf1 show ?thesis
  proof (cases rule: wf_cases)
    case null
    with s1 show ?thesis by simp
  next
    case (block a ys)
    define zs where "zs = take (Suc i) ys @ take (s - i) (drop i ys) @ drop (Suc s) ys"
    have ly: "Suc s \<le> length ys"
      using block s1 by simp
    have lz: "length zs = length ys"
      using s ly by (simp add: zs_def)
    have "\<exists>y. read_arg ((heap w1)(a \<mapsto> zs)) item = Inr y \<and> (\<forall>v. item = Value v \<longrightarrow> y = v)"
    proof (cases item)
      case (Value v)
      then show ?thesis by simp
    next
      case (Ref p)
      with assms(6) same have "w1 = w\<lparr>size_m := (size_m w)(this := size_m w this + 1)\<rparr>"
        by simp
      then have h: "heap w1 = heap w" by simp
      from assms(5) Ref obtain x0 where "load (heap w1) p = Inr x0"
        unfolding h by (auto elim: readableE simp: read_arg_def)
      from load_update_defined [OF this block(3) lz] Ref show ?thesis
        by (simp add: read_arg_def)
    qed
    then obtain x where rd: "read_arg ((heap w1)(a \<mapsto> zs)) item = Inr x"
      and xv: "\<forall>v. item = Value v \<longrightarrow> x = v"
      by blast
    define w' where "w' = w1\<lparr>heap := (heap w1)(a \<mapsto> zs[i := x])\<rparr>"
    have cp: "copy_down (s - i) (Ptr (Some a) (int s)) (Ptr (Some a) (int (Suc s))) (heap w1) =
       Inr ((heap w1)(a \<mapsto> zs))"
      unfolding zs_def using block s ly by (intro copy_down_shift) auto
    have n: "nat (int s - int i) = s - i"
      by simp
    have st: "store ((heap w1)(a \<mapsto> zs)) (Ptr (Some a) (int i)) x =
            Inr (((heap w1)(a \<mapsto> zs))(a \<mapsto> zs[i := x]))"
      using s ly lz by (intro store_Some) auto
    have idx: "ArrayPtr_index w1 (Items this) (of_nat i) = Ptr (Some a) (int i)"
      using block by (simp add: ArrayPtr_index_def ptr_add_def ci)
    have e1: "end_it w1 this = Ptr (Some a) (int (Suc s))"
      using block by (simp add: end_it_def Get_def ptr_add_def us del: of_nat_Suc)
    have e2: "ptr_add (Ptr (Some a) (int (Suc s))) (- 1) = Ptr (Some a) (int s)"
      by (simp add: ptr_add_def)
    have sb: "std_copy_backward (Ptr (Some a) (int i)) (Ptr (Some a) (int s))
                (Ptr (Some a) (int (Suc s))) (heap w1) =
              Inr (Ptr (Some a) (int (Suc i)), (heap w1)(a \<mapsto> zs))"
      using s by (simp add: std_copy_backward_def ptr_diff_def ptr_add_def n cp del: of_nat_Suc)
    have e3: "ptr_add (Ptr (Some a) (int (Suc i))) (- 1) = Ptr (Some a) (int i)"
      by (simp add: ptr_add_def)
    have chk: "ptr_le (cbegin w this) (Ptr (base (raw_ptr w (Items this))) (int i))"
      "ptr_le (Ptr (base (raw_ptr w (Items this))) (int i)) (cend w this)"
      "Ptr (base (raw_ptr w (Items this))) (int i) \<noteq> cend w this"
      "ptr_diff (Ptr (base (raw_ptr w (Items this))) (int i)) (Get w (Items this)) = Inr (int i)"
      using s off by (simp_all add: cbegin_def cend_def Get_def ptr_le_def ptr_add_def us
          ptr_diff_def)
    have ins: "Insert this (Ptr (base (raw_ptr w (Items this))) (int i)) item w =
                 Inr (Ptr (Some a) (int i), w')"
      unfolding Insert_def
      by (simp add: chk ccr idx e1 e2 sb e3 rd st w'_def del: of_nat_Suc)
    have "elems w' this = take (Suc s) (zs[i := x])"
      using block s1 by (simp add: elems_def buffer_def w'_def)
    also have "\<dots> = take i (take s ys) @ x # drop i (take s ys)"
      unfolding zs_def using s ly by (intro insert_list) auto
    also have "take s ys = elems w this"
      using tk block by (simp add: buffer_def)
    finally have el: "elems w' this = take i (elems w this) @ x # drop i (elems w this)" .
    have wf': "wf w' this"
      using block wf1 lz by (simp add: wf_def w'_def)
    have rest: "size_m w' this = size_m w this + 1" "capacity_m w' this = capacity_m w1 this"
       "raw_ptr w' (Items this) = raw_ptr w1 (Items this)" "avail w' = avail w1"
       "ptr_add (begin_it w' this) (int i) = Ptr (Some a) (int i)"
      using block sz by (simp_all add: w'_def begin_it_def Get_def ptr_add_def)
    show ?thesis
      unfolding wf_begin [OF assms(1)] using ins el wf' rest cap raw av xv
      by (intro exI [of _ w'] exI [of _ x]) simp
  qed
qed

lemma ArrayPtr_move_assign_distinct:
  assumes "this \<noteq> other"
    "raw_ptr w this = nullptr \<or> (\<exists>a xs. raw_ptr w this = Ptr (Some a) 0 \<and> heap w a = Some xs)"
  shows "\<exists>w'. ArrayPtr_move_assign this other w = Inr w' \<and> raw_ptr w' other = nullptr \<and>
           raw_ptr w' this = raw_ptr w other \<and>
           (\<forall>a. raw_ptr w this = Ptr (Some a) 0 \<longrightarrow> heap w' a = None)"
  using assms
  by (auto simp: ArrayPtr_move_assign_def delete_array_def Let_def nullptr_def)

lemma ArrayPtr_move_distinct:
  assumes "this \<noteq> other"
  shows "raw_ptr (ArrayPtr_move this other w) other = nullptr \<and>
         raw_ptr (ArrayPtr_move this other w) this = raw_ptr w other \<and>
         heap (ArrayPtr_move this other w) = heap w"
  using assms by (simp add: ArrayPtr_move_def Let_def)

lemma wf_demo_world: "wf demo_world 0"
  by (simp add: wf_def demo_world_def)

lemma elems_demo_world: "elems demo_world 0 = [1, 2, 3]"
  by (simp add: elems_def buffer_def demo_world_def)

lemma new_capacity_as_spec:
  fixes c n :: size_t
  assumes "c < n"
  shows "max n (if c = 0 then 1 else c * 2) = max n (max (c * 2) 1)"
proof (cases "c * 2 = 0")
  case True
  have "1 \<le> n"
    using assms by (simp add: word_le_nat_alt word_less_nat_alt)
  with True show ?thesis
    by (simp add: max_def)
next
  case False
  then have "1 \<le> c * 2" "c \<noteq> 0"
    by (auto simp: word_le_nat_alt Suc_le_eq unat_gt_0)
  then show ?thesis
    by (simp add: max_def)
qed

lemma buffer_size_update:
  "buffer (w\<lparr>size_m := f\<rparr>) this = buffer w this"
  by (simp add: buffer_def cong: option.case_cong)

lemma PushBack_move_eq: "PushBack_move = PushBack"
  by (simp add: fun_eq_iff PushBack_move_def PushBack_def)

lemma std_move_backward_eq: "std_move_backward = std_copy_backward"
  by (simp add: fun_eq_iff std_move_backward_def)

lemma Insert_move_eq:
  assumes "ptr_le (cbegin w this) pos" "ptr_le pos (cend w this)"
  shows "Insert_move this pos x w = Insert this pos x w"
  unfolding Insert_move_def Insert_def PushBack_move_eq std_move_backward_eq
  using assms by simp

lemma wf_positions:
  assumes "wf w this" "i \<le> unat (size_m w this)"
  shows "ptr_le (cbegin w this) (ptr_add (begin_it w this) (int i))"
    "ptr_le (ptr_add (begin_it w this) (int i)) (cend w this)"
    "ptr_add (begin_it w this) (int i) = cend w this \<longleftrightarrow> i = unat (size_m w this)"
proof -
  define s where "s = unat (size_m w this)"
  have us: "uint (size_m w this) = int s"
    by (simp add: s_def)
  have off: "offs (raw_ptr w (Items this)) = 0"
    using assms(1) by (simp add: wf_def)
  show "ptr_le (cbegin w this) (ptr_add (begin_it w this) (int i))"
    "ptr_le (ptr_add (begin_it w this) (int i)) (cend w this)"
    "ptr_add (begin_it w this) (int i) = cend w this \<longleftrightarrow> i = unat (size_m w this)"
    using assms(2) off
    by (auto simp: cbegin_def cend_def begin_it_def Get_def ptr_le_def ptr_add_def us
        s_def [symmetric])
qed

lemma load_elems:
  assumes "wf w this" "i < unat (size_m w this)"
  shows "load (heap w) (ptr_add (begin_it w this) (int i)) = Inr (elems w this ! i)"
  using assms(1)
proof (cases rule: wf_cases)
  case null
  with assms(2) show ?thesis by simp
next
  case (block a xs)
  with assms(2) show ?thesis
    by (simp add: wf_begin [OF assms(1)] load_Some elems_def buffer_def)
qed

lemma Insert_end:
  assumes "wf w this" "size_m w this + 1 \<noteq> 0"
    "size_m w this < capacity_m w this \<or>
     can_allocate (max (size_m w this + 1)
       (if capacity_m w this = 0 then 1 else capacity_m w this * 2)) w"
    "read_arg (heap w) item = Inr x" "size_m w this < capacity_m w this \<or> is_Value item"
  shows "\<exists>w'. PushBack this item w = Inr w' \<and>
           Insert this (cend w this) item w =
             Inr (ptr_add (begin_it w' this) (int (unat (size_m w this))), w') \<and>
           wf w' this \<and> size_m w' this = size_m w this + 1 \<and>
           capacity_m w' this =
             (if size_m w this = capacity_m w this
              then max (size_m w this + 1)
                     (if capacity_m w this = 0 then 1 else capacity_m w this * 2)
              else capacity_m w this) \<and>
           elems w' this = elems w this @ [x] \<and>
           avail w' + unat (capacity_m w' this) = avail w + unat (capacity_m w this) \<and>
           (size_m w this < capacity_m w this \<longrightarrow>
              raw_ptr w' (Items this) = raw_ptr w (Items this))"
proof -
  from PushBack_spec [OF assms] obtain w' where
    p: "PushBack this item w = Inr w'" "wf w' this" "size_m w' this = size_m w this + 1"
      "capacity_m w' this =
             (if size_m w this = capacity_m w this
              then max (size_m w this + 1)
                     (if capacity_m w this = 0 then 1 else capacity_m w this * 2)
              else capacity_m w this)"
      "elems w' this = elems w this @ [x]"
      "avail w' + unat (capacity_m w' this) = avail w + unat (capacity_m w this)"
      "size_m w this < capacity_m w this \<longrightarrow>
              raw_ptr w' (Items this) = raw_ptr w (Items this)"
    by blast
  have "unat (size_m w' this) = Suc (unat (size_m w this))"
    using p(3) assms(2) by (simp add: unat_plus_one)
  then have "int (unat (size_m w' this)) = int (Suc (unat (size_m w this)))"
    by (simp only:)
  then have "ptr_add (end_it w' this) (- 1) =
          ptr_add (begin_it w' this) (int (unat (size_m w this)))"
    by (simp add: end_it_def begin_it_def ptr_add_def)
  moreover have "ptr_le (cbegin w this) (cend w this)"
    by (simp add: cbegin_def cend_def ptr_le_def ptr_add_def)
  ultimately have "Insert this (cend w this) item w =
             Inr (ptr_add (begin_it w' this) (int (unat (size_m w this))), w')"
    using p(1) by (simp add: Insert_def ptr_le_def)
  with p show ?thesis
    by blast
qed

lemma Insert_spec:
  assumes "wf w this" "i \<le> unat (size_m w this)" "size_m w this + 1 \<noteq> 0"
    "size_m w this < capacity_m w this \<or>
     can_allocate (max (size_m w this + 1)
       (if capacity_m w this = 0 then 1 else capacity_m w this * 2)) w"
    "readable (heap w) item" "size_m w this < capacity_m w this \<or> is_Value item"
  shows "\<exists>w' y. Insert this (ptr_add (begin_it w this) (int i)) item w =
                 Inr (ptr_add (begin_it w' this) (int i), w') \<and>
           wf w' this \<and> size_m w' this = size_m w this + 1 \<and>
           capacity_m w' this =
             (if size_m w this = capacity_m w this
              then max (size_m w this + 1)
                     (if capacity_m w this = 0 then 1 else capacity_m w this * 2)
              else capacity_m w this) \<and>
           elems w' this = take i (elems w this) @ y # drop i (elems w this) \<and>
           (\<forall>v. item = Value v \<longrightarrow> y = v) \<and>
           avail w' + unat (capacity_m w' this) = avail w + unat (capacity_m w this) \<and>
           (size_m w this < capacity_m w this \<longrightarrow>
              raw_ptr w' (Items this) = raw_ptr w (Items this))"
proof (cases "i = unat (size_m w this)")
  case True
  then have pos: "ptr_add (begin_it w this) (int i) = cend w this"
    using wf_positions(3) [OF assms(1,2)] by simp
  from assms(5) obtain x where rd: "read_arg (heap w) item = Inr x"
    by (rule readableE)
  from Insert_end [OF assms(1,3,4) rd assms(6)] obtain w' where
    p: "Insert this (cend w this) item w =
             Inr (ptr_add (begin_it w' this) (int (unat (size_m w this))), w')"
      "wf w' this" "size_m w' this = size_m w this + 1"
      "capacity_m w' this =
             (if size_m w this = capacity_m w this
              then max (size_m w this + 1)
                     (if capacity_m w this = 0 then 1 else capacity_m w this * 2)
              else capacity_m w this)"
      "elems w' this = elems w this @ [x]"
      "avail w' + unat (capacity_m w' this) = avail w + unat (capacity_m w this)"
      "size_m w this < capacity_m w this \<longrightarrow>
              raw_ptr w' (Items this) = raw_ptr w (Items this)"
    by blast
  have "\<forall>v. item = Value v \<longrightarrow> x = v"
    using rd by auto
  with p True length_elems [OF assms(1)] show ?thesis
    unfolding pos by (intro exI [of _ w'] exI [of _ x]) simp
next
  case False
  with assms(2) have "i < unat (size_m w this)" by simp
  from Insert_mid [OF assms(1) this assms(3-6)] show ?thesis .
qed

lemma drop_result_Insert_end:
  "drop_result (Insert this (cend w this) item w) = PushBack this item w"
proof -
  have "ptr_le (cbegin w this) (cend w this)"
    by (simp add: cbegin_def cend_def ptr_le_def ptr_add_def)
  then show ?thesis
    by (simp add: Insert_def drop_result_def ptr_le_def split: sum.splits)
qed

lemma drop_result_Insert_move_end:
  "drop_result (Insert_move this (cend w this) item w) = PushBack_move this item w"
  by (simp add: Insert_move_def drop_result_def split: sum.splits)

lemma size_lt_capacity_not_max:
  fixes s c :: size_t
  shows "s < c \<Longrightarrow> s + 1 \<noteq> 0"
  by (metis word_not_simps(3) max_word_wrap)

subsection \<open>Which calls throw\<close>

text \<open>Only \<^verbatim>\<open>At\<close> ends with the out-of-range error.\<close>

lemma load_no_throw: "load h p \<noteq> Inl OutOfRange"
  by (simp add: load_def split: option.splits)

lemma store_no_throw: "store h p x \<noteq> Inl OutOfRange"
  by (simp add: store_def split: option.splits)

lemma copy_up_no_throw: "copy_up n p q h \<noteq> Inl OutOfRange"
  by (induction n arbitrary: p q h) (auto simp: load_no_throw store_no_throw split: sum.splits)

lemma copy_down_no_throw: "copy_down n p q h \<noteq> Inl OutOfRange"
  by (induction n arbitrary: p q h) (auto simp: load_no_throw store_no_throw split: sum.splits)

lemma read_arg_no_throw: "read_arg h r \<noteq> Inl OutOfRange"
  by (cases r) (simp_all add: read_arg_def load_no_throw)

lemma fill_up_no_throw: "fill_up n p v h \<noteq> Inl OutOfRange"
  by (induction n arbitrary: p h)
    (auto simp: store_no_throw read_arg_no_throw split: sum.splits)

lemma copy_list_no_throw: "copy_list xs p h \<noteq> Inl OutOfRange"
  by (induction xs arbitrary: p h) (auto simp: store_no_throw split: sum.splits)

lemma Resize_loop_no_throw: "Resize_loop it lim h \<noteq> Inl OutOfRange"
proof (induction it lim h rule: Resize_loop.induct)
  case (1 it lim h)
  then show ?case
    by (subst Resize_loop.simps) (auto simp: store_no_throw split: sum.splits)
qed

lemma std_copy_no_throw: "std_copy p q d h \<noteq> Inl OutOfRange"
  by (auto simp: std_copy_def ptr_diff_def copy_up_no_throw split: sum.splits)

lemma std_move_no_throw: "std_move p q d h \<noteq> Inl OutOfRange"
  by (simp add: std_move_def std_copy_no_throw)

lemma std_copy_backward_no_throw: "std_copy_backward p q d h \<noteq> Inl OutOfRange"
  by (auto simp: std_copy_backward_def ptr_diff_def copy_down_no_throw split: sum.splits)

lemma std_move_backward_no_throw: "std_move_backward p q d h \<noteq> Inl OutOfRange"
  by (simp add: std_move_backward_def std_copy_backward_no_throw)

lemma std_fill_no_throw: "std_fill p q v h \<noteq> Inl OutOfRange"
  by (auto simp: std_fill_def ptr_diff_def fill_up_no_throw split: sum.splits)

lemma delete_array_no_throw: "delete_array p w \<noteq> Inl OutOfRange"
  by (simp add: delete_array_def split: option.splits)

lemma ArrayPtr_dtor_no_throw: "ArrayPtr_dtor r w \<noteq> Inl OutOfRange"
  by (simp add: ArrayPtr_dtor_def delete_array_no_throw)

lemma ArrayPtr_move_assign_no_throw: "ArrayPtr_move_assign r r' w \<noteq> Inl OutOfRange"
  by (auto simp: ArrayPtr_move_assign_def Let_def delete_array_no_throw split: sum.splits)

lemma ArrayPtr_size_no_throw: "ArrayPtr_size r n w \<noteq> Inl OutOfRange"
  by (simp add: ArrayPtr_size_def new_array_def Let_def)

lemma Resize_no_throw: "Resize this n w \<noteq> Inl OutOfRange"
  by (auto simp: Resize_def Let_def std_move_no_throw ArrayPtr_dtor_no_throw
      ArrayPtr_size_no_throw Resize_loop_no_throw split: sum.splits prod.splits)

lemma Reserve_no_throw: "Reserve this n w \<noteq> Inl OutOfRange"
  by (auto simp: Reserve_def Let_def std_move_no_throw ArrayPtr_dtor_no_throw
      ArrayPtr_size_no_throw split: sum.splits prod.splits)

lemma CheckCapacityAndResize_no_throw: "CheckCapacityAndResize this w \<noteq> Inl OutOfRange"
  by (simp add: CheckCapacityAndResize_def Resize_no_throw)

lemma PushBack_no_throw: "PushBack this x w \<noteq> Inl OutOfRange"
  by (auto simp: PushBack_def CheckCapacityAndResize_no_throw store_no_throw read_arg_no_throw
      split: sum.splits)

lemma Insert_no_throw: "Insert this pos x w \<noteq> Inl OutOfRange"
  by (auto simp: Insert_def Let_def ptr_diff_def PushBack_no_throw
      CheckCapacityAndResize_no_throw std_copy_backward_no_throw store_no_throw
      read_arg_no_throw split: sum.splits prod.splits)

lemma Insert_move_no_throw: "Insert_move this pos x w \<noteq> Inl OutOfRange"
  by (auto simp: Insert_move_def Let_def ptr_diff_def PushBack_move_eq PushBack_no_throw
      CheckCapacityAndResize_no_throw std_move_backward_no_throw store_no_throw
      read_arg_no_throw split: sum.splits prod.splits)

lemma Erase_no_throw: "Erase this pos w \<noteq> Inl OutOfRange"
  by (auto simp: Erase_def Let_def ptr_diff_def std_move_no_throw
      split: sum.splits prod.splits if_splits)

lemma ctor_no_throw:
  "SimpleVector_size sz w \<noteq> Inl OutOfRange"
  "SimpleVector_fill sz v w \<noteq> Inl OutOfRange"
  "SimpleVector_init init w \<noteq> Inl OutOfRange"
  "SimpleVector_copy other w \<noteq> Inl OutOfRange"
  "SimpleVector_move other w \<noteq> Inl OutOfRange"
  "SimpleVector_reserve rhs w \<noteq> Inl OutOfRange"
  by (auto simp: SimpleVector_size_def SimpleVector_fill_def SimpleVector_init_def
      SimpleVector_copy_def SimpleVector_move_def SimpleVector_reserve_def Let_def
      std_fill_no_throw copy_list_no_throw std_copy_no_throw ArrayPtr_move_assign_no_throw
      Reserve_no_throw ArrayPtr_size_no_throw split: sum.splits prod.splits)

lemma assign_no_throw:
  "copy_assign this rhs w \<noteq> Inl OutOfRange"
  "move_assign this rhs w \<noteq> Inl OutOfRange"
  by (auto simp: copy_assign_def move_assign_def ctor_no_throw SimpleVector_dtor_def
      ArrayPtr_dtor_no_throw ArrayPtr_move_assign_no_throw split: sum.splits prod.splits)

lemma catchable_iff: "catchable e \<longleftrightarrow> e = OutOfRange \<or> e = BadAlloc"
  by (cases e) simp_all

lemma drop_result_no_throw: "r \<noteq> Inl OutOfRange \<Longrightarrow> drop_result r \<noteq> Inl OutOfRange"
  by (auto simp: drop_result_def split: sum.splits)

lemma run_throws_only_At:
  assumes "run c w = Inl OutOfRange"
  shows "\<exists>this index. c = Call_At this index"
  using assms
  by (cases c)
    (auto simp: drop_result_no_throw ctor_no_throw assign_no_throw PushBack_no_throw
      PushBack_move_eq Insert_no_throw Insert_move_no_throw Erase_no_throw Resize_no_throw
      Reserve_no_throw PopBack_def Index_def split: sum.splits if_splits)


text \<open>Only a call that allocates ends with the allocation error.\<close>

lemma load_no_bad_alloc: "load h p \<noteq> Inl BadAlloc"
  by (simp add: load_def split: option.splits)

lemma store_no_bad_alloc: "store h p x \<noteq> Inl BadAlloc"
  by (simp add: store_def split: option.splits)

lemma copy_up_no_bad_alloc: "copy_up n p q h \<noteq> Inl BadAlloc"
  by (induction n arbitrary: p q h)
    (auto simp: load_no_bad_alloc store_no_bad_alloc split: sum.splits)

lemma std_move_no_bad_alloc: "std_move p q d h \<noteq> Inl BadAlloc"
  by (auto simp: std_move_def std_copy_def ptr_diff_def copy_up_no_bad_alloc split: sum.splits)

lemma delete_array_no_bad_alloc: "delete_array p w \<noteq> Inl BadAlloc"
  by (simp add: delete_array_def split: option.splits)

lemma ArrayPtr_move_assign_no_bad_alloc: "ArrayPtr_move_assign r r' w \<noteq> Inl BadAlloc"
  by (auto simp: ArrayPtr_move_assign_def Let_def delete_array_no_bad_alloc split: sum.splits)

lemma Erase_no_bad_alloc: "Erase this pos w \<noteq> Inl BadAlloc"
  by (auto simp: Erase_def Let_def ptr_diff_def std_move_no_bad_alloc
      split: sum.splits prod.splits if_splits)

lemma SimpleVector_move_no_bad_alloc: "SimpleVector_move other w \<noteq> Inl BadAlloc"
  by (auto simp: SimpleVector_move_def Let_def ArrayPtr_move_assign_no_bad_alloc
      split: sum.splits prod.splits)

lemma move_assign_no_bad_alloc: "move_assign this rhs w \<noteq> Inl BadAlloc"
  by (auto simp: move_assign_def ArrayPtr_move_assign_no_bad_alloc split: sum.splits)

lemma drop_result_no_bad_alloc: "r \<noteq> Inl BadAlloc \<Longrightarrow> drop_result r \<noteq> Inl BadAlloc"
  by (auto simp: drop_result_def split: sum.splits)

lemma run_bad_alloc_only_allocates:
  assumes "run c w = Inl BadAlloc"
  shows "allocates c"
  using assms
  by (cases c)
    (auto simp: drop_result_no_bad_alloc SimpleVector_move_no_bad_alloc
      move_assign_no_bad_alloc Erase_no_bad_alloc PopBack_def Index_def At_def
      split: sum.splits if_splits)

subsection \<open>The size never exceeds the capacity\<close>

lemma ArrayPtr_size_fields:
  "ArrayPtr_size r n w = Inr w' \<Longrightarrow>
   size_m w' = size_m w \<and> capacity_m w' = capacity_m w \<and> next_obj w' = next_obj w"
  by (auto simp: ArrayPtr_size_def new_array_def Let_def split: if_splits)

lemma ArrayPtr_swap_fields [simp]:
  "size_m (ArrayPtr_swap r r' w) = size_m w" "capacity_m (ArrayPtr_swap r r' w) = capacity_m w"
  by (simp_all add: ArrayPtr_swap_def Let_def)

lemma delete_array_fields:
  "delete_array p w = Inr w' \<Longrightarrow> size_m w' = size_m w \<and> capacity_m w' = capacity_m w"
  by (auto simp: delete_array_def split: if_splits option.splits)

lemma ArrayPtr_dtor_fields:
  "ArrayPtr_dtor r w = Inr w' \<Longrightarrow> size_m w' = size_m w \<and> capacity_m w' = capacity_m w"
  by (simp add: ArrayPtr_dtor_def delete_array_fields)

lemma ArrayPtr_move_assign_fields:
  "ArrayPtr_move_assign r r' w = Inr w' \<Longrightarrow>
   size_m w' = size_m w \<and> capacity_m w' = capacity_m w"
  by (auto simp: ArrayPtr_move_assign_def Let_def split: if_splits sum.splits
      dest: delete_array_fields)

lemma Resize_fields:
  assumes "Resize this n w = Inr w'"
  shows "size_m w' = (size_m w)(this := n) \<and>
         capacity_m w' = (capacity_m w)(this :=
           (if capacity_m w this < n
            then max n (if capacity_m w this = 0 then 1 else capacity_m w this * 2)
            else capacity_m w this))"
proof (cases "capacity_m w this < n")
  case True
  with assms show ?thesis
    by (auto simp: Resize_def Let_def new_obj_def split: sum.splits prod.splits
        dest!: ArrayPtr_dtor_fields ArrayPtr_size_fields)
next
  case False
  with assms show ?thesis
    by (auto simp: Resize_def split: sum.splits if_splits)
qed

lemma Reserve_fields:
  assumes "Reserve this n w = Inr w'"
  shows "size_m w' = size_m w \<and>
         capacity_m w' = (capacity_m w)(this :=
           (if capacity_m w this < n then n else capacity_m w this))"
proof (cases "capacity_m w this < n")
  case True
  with assms show ?thesis
    by (auto simp: Reserve_def Let_def new_obj_def split: sum.splits prod.splits
        dest!: ArrayPtr_dtor_fields ArrayPtr_size_fields)
next
  case False
  with assms show ?thesis
    by (auto simp: Reserve_def)
qed

lemma Resize_keeps:
  assumes "\<forall>v. size_m w v \<le> capacity_m w v" "Resize this n w = Inr w'"
  shows "size_m w' v \<le> capacity_m w' v"
  using Resize_fields [OF assms(2)] assms(1) by (auto simp: not_less)

lemma Reserve_keeps:
  assumes "\<forall>v. size_m w v \<le> capacity_m w v" "Reserve this n w = Inr w'"
  shows "size_m w' v \<le> capacity_m w' v"
proof -
  have "capacity_m w this < n \<Longrightarrow> size_m w this \<le> n"
    using assms(1) by (meson order.strict_implies_order order_trans)
  with Reserve_fields [OF assms(2)] assms(1) show ?thesis
    by auto
qed

lemma CheckCapacityAndResize_keeps:
  assumes "\<forall>v. size_m w v \<le> capacity_m w v" "CheckCapacityAndResize this w = Inr w'"
  shows "size_m w' v \<le> capacity_m w' v"
proof (cases "capacity_m w this \<le> size_m w this")
  case True
  with assms show ?thesis
    by (auto simp: CheckCapacityAndResize_def intro: Resize_keeps)
next
  case False
  then have "size_m w this + 1 \<le> capacity_m w this"
    by (simp add: inc_le not_le)
  with False assms show ?thesis
    by (auto simp: CheckCapacityAndResize_def)
qed

lemma PushBack_keeps:
  assumes "\<forall>v. size_m w v \<le> capacity_m w v" "PushBack this x w = Inr w'"
  shows "size_m w' v \<le> capacity_m w' v"
  using assms
  by (auto simp: PushBack_def split: sum.splits dest: CheckCapacityAndResize_keeps)

lemma word_pred_le:
  fixes s c :: size_t
  assumes "s \<noteq> 0" "s \<le> c"
  shows "s - 1 \<le> c"
  using assms by (simp add: word_le_nat_alt unat_minus_one)

lemma PopBack_keeps:
  assumes "\<forall>v. size_m w v \<le> capacity_m w v" "PopBack this w = Inr w'"
  shows "size_m w' v \<le> capacity_m w' v"
proof -
  have "size_m w this - 1 \<le> capacity_m w this" if "size_m w this \<noteq> 0"
    using that assms(1) by (intro word_pred_le) simp_all
  with assms show ?thesis
    by (auto simp: PopBack_def IsEmpty_def split: if_splits)
qed

lemma Insert_keeps:
  assumes "\<forall>v. size_m w v \<le> capacity_m w v" "Insert this pos x w = Inr (p, w')"
  shows "size_m w' v \<le> capacity_m w' v"
  using assms
  by (auto simp: Insert_def Let_def split: sum.splits prod.splits if_splits
      dest: CheckCapacityAndResize_keeps PushBack_keeps)

lemma Insert_move_keeps:
  assumes "\<forall>v. size_m w v \<le> capacity_m w v" "Insert_move this pos x w = Inr (p, w')"
  shows "size_m w' v \<le> capacity_m w' v"
  using assms
  by (auto simp: Insert_move_def Let_def PushBack_move_eq split: sum.splits prod.splits if_splits
      dest: CheckCapacityAndResize_keeps PushBack_keeps)

lemma Erase_keeps:
  assumes "\<forall>v. size_m w v \<le> capacity_m w v" "Erase this pos w = Inr (p, w')"
  shows "size_m w' v \<le> capacity_m w' v"
proof -
  have nz: "size_m w this \<noteq> 0"
    if "ptr_le (begin_it w this) pos" "ptr_less pos (end_it w this)"
    using that by (auto simp: ptr_le_def ptr_less_def begin_it_def end_it_def ptr_add_def)
  have "size_m w this - 1 \<le> capacity_m w this" if "size_m w this \<noteq> 0"
    using that assms(1) by (intro word_pred_le) simp_all
  with nz assms show ?thesis
    by (auto simp: Erase_def Let_def split: sum.splits prod.splits if_splits)
qed

lemma swap_v_keeps:
  assumes "\<forall>v. size_m w v \<le> capacity_m w v"
  shows "size_m (swap_v this other w) v \<le> capacity_m (swap_v this other w) v"
  using assms by (simp add: swap_v_def Let_def)

lemma exchange_fields_keeps:
  assumes "\<forall>v. size_m w v \<le> capacity_m w v"
  shows "size_m (exchange_fields this rhs w) v \<le> capacity_m (exchange_fields this rhs w) v"
  using assms by (simp add: exchange_fields_def Let_def)

lemma default_members_keeps:
  assumes "\<forall>v. size_m w v \<le> capacity_m w v"
  shows "size_m (default_members this w) v \<le> capacity_m (default_members this w) v"
  using assms by (simp add: default_members_def ArrayPtr_default_def Let_def)

lemma new_obj_fields [simp]:
  "size_m (snd (new_obj w)) = size_m w" "capacity_m (snd (new_obj w)) = capacity_m w"
  by (simp_all add: new_obj_def)

lemma SimpleVector_default_keeps:
  assumes "\<forall>v. size_m w v \<le> capacity_m w v"
  shows "size_m (snd (SimpleVector_default w)) v \<le> capacity_m (snd (SimpleVector_default w)) v"
  using assms
  by (simp add: SimpleVector_default_def default_members_def ArrayPtr_default_def new_obj_def)

lemma SimpleVector_size_keeps:
  assumes "\<forall>v. size_m w v \<le> capacity_m w v" "SimpleVector_size sz w = Inr (this, w')"
  shows "size_m w' v \<le> capacity_m w' v"
  using assms
  by (auto simp: SimpleVector_size_def new_obj_def Let_def split: if_splits sum.splits
      dest!: ArrayPtr_size_fields)

lemma SimpleVector_fill_keeps:
  assumes "\<forall>v. size_m w v \<le> capacity_m w v" "SimpleVector_fill sz x w = Inr (this, w')"
  shows "size_m w' v \<le> capacity_m w' v"
  using assms
  by (auto simp: SimpleVector_fill_def new_obj_def Let_def split: if_splits sum.splits
      dest!: ArrayPtr_size_fields)

lemma SimpleVector_init_keeps:
  assumes "\<forall>v. size_m w v \<le> capacity_m w v" "SimpleVector_init init w = Inr (this, w')"
  shows "size_m w' v \<le> capacity_m w' v"
  using assms
  by (auto simp: SimpleVector_init_def new_obj_def Let_def split: if_splits sum.splits
      dest!: ArrayPtr_size_fields)

lemma SimpleVector_copy_keeps:
  assumes "\<forall>v. size_m w v \<le> capacity_m w v" "SimpleVector_copy other w = Inr (this, w')"
  shows "size_m w' v \<le> capacity_m w' v"
  using assms
  by (auto simp: SimpleVector_copy_def new_obj_def Let_def GetSize_def GetCapacity_def
      split: if_splits sum.splits prod.splits dest!: ArrayPtr_size_fields)

lemma SimpleVector_move_keeps:
  assumes "\<forall>v. size_m w v \<le> capacity_m w v" "SimpleVector_move other w = Inr (this, w')"
  shows "size_m w' v \<le> capacity_m w' v"
proof -
  from assms(2) obtain w2 where
    m: "ArrayPtr_move_assign (Items this) (Items other)
          (default_members this (snd (new_obj w))) = Inr w2"
    and w': "w' = exchange_fields this other w2"
    by (auto simp: SimpleVector_move_def new_obj_def Let_def split: sum.splits)
  have "\<forall>v. size_m (default_members this (snd (new_obj w))) v
            \<le> capacity_m (default_members this (snd (new_obj w))) v"
    using assms(1) by (intro allI default_members_keeps) simp
  with ArrayPtr_move_assign_fields [OF m] have "\<forall>v. size_m w2 v \<le> capacity_m w2 v"
    by simp
  then show ?thesis
    unfolding w' by (rule exchange_fields_keeps)
qed

lemma SimpleVector_reserve_keeps:
  assumes "\<forall>v. size_m w v \<le> capacity_m w v" "SimpleVector_reserve rhs w = Inr (this, w')"
  shows "size_m w' v \<le> capacity_m w' v"
proof -
  from assms(2) have
    r: "Reserve this (ReserveProxyObj_GetCapacity rhs) (default_members this (snd (new_obj w))) =
          Inr w'"
    by (auto simp: SimpleVector_reserve_def new_obj_def Let_def split: sum.splits)
  have "\<forall>v. size_m (default_members this (snd (new_obj w))) v
            \<le> capacity_m (default_members this (snd (new_obj w))) v"
    using assms(1) by (intro allI default_members_keeps) simp
  from Reserve_keeps [OF this r] show ?thesis .
qed

lemma copy_assign_keeps:
  assumes "\<forall>v. size_m w v \<le> capacity_m w v" "copy_assign this rhs w = Inr w'"
  shows "size_m w' v \<le> capacity_m w' v"
proof (cases "this = rhs")
  case True
  with assms show ?thesis by (simp add: copy_assign_def)
next
  case False
  with assms(2) obtain tmp w1 where
    c: "SimpleVector_copy rhs w = Inr (tmp, w1)"
    and d: "SimpleVector_dtor tmp (swap_v this tmp w1) = Inr w'"
    by (auto simp: copy_assign_def split: sum.splits)
  have "\<forall>v. size_m w1 v \<le> capacity_m w1 v"
    using SimpleVector_copy_keeps [OF assms(1) c] by simp
  then have "\<forall>v. size_m (swap_v this tmp w1) v \<le> capacity_m (swap_v this tmp w1) v"
    by (auto intro!: swap_v_keeps)
  with ArrayPtr_dtor_fields [OF d [unfolded SimpleVector_dtor_def]] show ?thesis
    by simp
qed

lemma move_assign_keeps:
  assumes "\<forall>v. size_m w v \<le> capacity_m w v" "move_assign this rhs w = Inr w'"
  shows "size_m w' v \<le> capacity_m w' v"
proof (cases "this = rhs")
  case True
  with assms show ?thesis by (simp add: move_assign_def)
next
  case False
  with assms(2) obtain w1 where
    m: "ArrayPtr_move_assign (Items this) (Items rhs) w = Inr w1"
    and w': "w' = exchange_fields this rhs w1"
    by (auto simp: move_assign_def split: sum.splits)
  from ArrayPtr_move_assign_fields [OF m] assms(1) have "\<forall>v. size_m w1 v \<le> capacity_m w1 v"
    by simp
  then show ?thesis
    unfolding w' by (rule exchange_fields_keeps)
qed

lemma run_keeps:
  assumes "\<forall>v. size_m w v \<le> capacity_m w v" "run c w = Inr w'"
  shows "size_m w' v \<le> capacity_m w' v"
proof (cases c)
  case New_default
  with assms show ?thesis by (auto intro: SimpleVector_default_keeps)
next
  case (New_size sz)
  with assms show ?thesis
    by (auto simp: drop_result_def split: sum.splits dest: SimpleVector_size_keeps)
next
  case (New_fill sz x)
  with assms show ?thesis
    by (auto simp: drop_result_def split: sum.splits dest: SimpleVector_fill_keeps)
next
  case (New_init init)
  with assms show ?thesis
    by (auto simp: drop_result_def split: sum.splits dest: SimpleVector_init_keeps)
next
  case (New_copy other)
  with assms show ?thesis
    by (auto simp: drop_result_def split: sum.splits dest: SimpleVector_copy_keeps)
next
  case (New_move other)
  with assms show ?thesis
    by (auto simp: drop_result_def split: sum.splits dest: SimpleVector_move_keeps)
next
  case (New_reserve rhs)
  with assms show ?thesis
    by (auto simp: drop_result_def split: sum.splits dest: SimpleVector_reserve_keeps)
next
  case (Call_copy_assign this rhs)
  with assms show ?thesis by (auto dest: copy_assign_keeps)
next
  case (Call_move_assign this rhs)
  with assms show ?thesis by (auto dest: move_assign_keeps)
next
  case (Call_swap this other)
  with assms show ?thesis by (auto intro: swap_v_keeps)
next
  case (Call_PushBack this x)
  with assms show ?thesis by (auto dest: PushBack_keeps)
next
  case (Call_PushBack_move this x)
  with assms show ?thesis by (auto simp: PushBack_move_eq dest: PushBack_keeps)
next
  case (Call_PopBack this)
  with assms show ?thesis by (auto dest: PopBack_keeps)
next
  case (Call_Insert this pos x)
  with assms show ?thesis
    by (auto simp: drop_result_def split: sum.splits dest: Insert_keeps)
next
  case (Call_Insert_move this pos x)
  with assms show ?thesis
    by (auto simp: drop_result_def split: sum.splits dest: Insert_move_keeps)
next
  case (Call_Erase this pos)
  with assms show ?thesis
    by (auto simp: drop_result_def split: sum.splits dest: Erase_keeps)
next
  case (Call_Index this index)
  with assms show ?thesis by (auto split: sum.splits)
next
  case (Call_At this index)
  with assms show ?thesis by (auto simp: At_def split: if_splits)
next
  case (Call_Resize this n)
  with assms show ?thesis by (auto dest: Resize_keeps)
next
  case (Call_Reserve this n)
  with assms show ?thesis by (auto dest: Reserve_keeps)
next
  case (Call_Clear this)
  with assms show ?thesis by (auto simp: Clear_def)
qed

lemma reachable_keeps: "reachable w \<Longrightarrow> size_m w v \<le> capacity_m w v"
proof (induction arbitrary: v rule: reachable.induct)
  case start
  show ?case by (simp add: init_world_def)
next
  case (call w c w')
  then show ?case
    by (intro run_keeps [of w c w']) simp_all
qed

subsection \<open>Growth\<close>

lemma wrapped_size_is_max:
  fixes s :: size_t
  assumes "s + 1 = 0"
  shows "uint (- 1 :: size_t) = 2 ^ 64 - 1" "unat s = 2 ^ 64 - 1"
proof -
  show "uint (- 1 :: size_t) = 2 ^ 64 - 1"
    by (simp add: unsigned_minus_1_eq_mask mask_eq_exp_minus_1)
  from assms have "s = - 1"
    by (simp add: eq_neg_iff_add_eq_0)
  then show "unat s = 2 ^ 64 - 1"
    by (simp add: unsigned_minus_1_eq_mask mask_eq_exp_minus_1)
qed

lemma read_arg_error: "read_arg h r = Inl e \<Longrightarrow> e = UndefinedBehaviour"
  by (cases r) (auto simp: read_arg_def load_def split: option.splits if_splits)

lemma PushBack_at_max:
  assumes "wf w this" "size_m w this + 1 = 0"
  shows "PushBack this item w = Inl UndefinedBehaviour"
proof -
  have le: "capacity_m w this \<le> size_m w this"
    using wrapped_size_is_max(2) [OF assms(2)] unat_lt_max [of "capacity_m w this"]
    by (simp add: word_le_nat_alt)
  have r: "Resize this 0 w = Inr (w\<lparr>size_m := (size_m w)(this := 0)\<rparr>)"
    using assms(1) by (intro Resize_shrink) (simp_all add: wf_def)
  have len: "length (buffer w this) < 2 ^ 64"
    using wf_length_buffer [OF assms(1)] unat_lt_max [of "capacity_m w this"] by simp
  have st: "store (heap w) (ptr_add (raw_ptr w (Items this)) (2 ^ 64 - 1)) x =
          Inl UndefinedBehaviour" for x
    using len assms(1)
    by (auto simp: store_def ptr_add_def buffer_def wf_def split: option.splits)
  show ?thesis
  proof (cases "read_arg (heap w) item")
    case (Inl e)
    then have "e = UndefinedBehaviour"
      by (rule read_arg_error)
    with Inl le r assms(2) show ?thesis
      by (simp add: PushBack_def CheckCapacityAndResize_def)
  next
    case (Inr x)
    with le r assms(2) st [of x] show ?thesis
      by (simp add: PushBack_def CheckCapacityAndResize_def ArrayPtr_index_def
          wrapped_size_is_max(1) [OF assms(2)])
  qed
qed

lemma Insert_mid_at_max:
  assumes "wf w this" "i < unat (size_m w this)" "size_m w this + 1 = 0"
  shows "Insert this (ptr_add (begin_it w this) (int i)) item w = Inl UndefinedBehaviour"
proof -
  define pos where "pos = ptr_add (begin_it w this) (int i)"
  have le: "capacity_m w this \<le> size_m w this"
    using wrapped_size_is_max(2) [OF assms(3)] unat_lt_max [of "capacity_m w this"]
    by (simp add: word_le_nat_alt)
  have r: "Resize this 0 w = Inr (w\<lparr>size_m := (size_m w)(this := 0)\<rparr>)"
    using assms(1) by (intro Resize_shrink) (simp_all add: wf_def)
  have ne: "pos \<noteq> cend w this"
    unfolding pos_def using wf_positions(3) [OF assms(1), of i] assms(2) by simp
  have chk: "ptr_le (cbegin w this) pos" "ptr_le pos (cend w this)"
    unfolding pos_def using wf_positions(1,2) [OF assms(1), of i] assms(2) by simp_all
  have d: "ptr_diff pos (Get w (Items this)) = Inr (int i)"
    by (simp add: pos_def ptr_diff_def ptr_add_def begin_it_def Get_def)
  have ci: "uint (of_nat i :: size_t) = int i"
    using assms(2) unat_lt_max [of "size_m w this"] by (intro uint_index) simp
  define w1 where "w1 = w\<lparr>size_m := (size_m w)(this := 0)\<rparr>"
  have ccr: "CheckCapacityAndResize this w = Inr w1"
    using le r assms(3) by (simp add: CheckCapacityAndResize_def w1_def)
  have sb: "std_copy_backward (ArrayPtr_index w1 (Items this) (of_nat i))
              (ptr_add (end_it w1 this) (- 1)) (end_it w1 this) (heap w1) =
            Inl UndefinedBehaviour"
    by (simp add: std_copy_backward_def ptr_diff_def ptr_add_def ArrayPtr_index_def
        end_it_def Get_def ci w1_def)
  have "Insert this pos item w = Inl UndefinedBehaviour"
    unfolding Insert_def
    by (simp add: chk ne d ccr sb)
  then show ?thesis
    by (simp only: pos_def)
qed

lemma unat_double:
  fixes c :: size_t
  assumes "unat c = 2 ^ k" "k < 63"
  shows "unat (c * 2) = 2 ^ Suc k"
proof -
  have "(2::nat) ^ Suc k \<le> 2 ^ 63"
    using assms(2) by (intro power_increasing) auto
  then have "unat c * unat (2 :: size_t) < 2 ^ LENGTH(64)"
    using assms(1) by simp
  then have "unat (c * 2) = unat c * unat (2 :: size_t)"
    by (simp only: unat_mult_lem)
  then show ?thesis
    using assms(1) by simp
qed

text \<open>
  The capacity a call leaves, if it returns, is the one \<^verbatim>\<open>CheckCapacityAndResize\<close> left.
\<close>

lemma PushBack_fields:
  assumes "PushBack this item w = Inr w'"
  shows "\<exists>w1. CheckCapacityAndResize this w = Inr w1 \<and> capacity_m w' = capacity_m w1 \<and>
           size_m w' = size_m w1"
  using assms by (auto simp: PushBack_def split: sum.splits)

lemma Insert_mid_fields:
  assumes "Insert this pos item w = Inr (p, w')" "pos \<noteq> cend w this"
  shows "\<exists>w1. CheckCapacityAndResize this w = Inr w1 \<and> capacity_m w' = capacity_m w1 \<and>
           size_m w' = size_m w1"
  using assms by (auto simp: Insert_def Let_def split: sum.splits prod.splits if_splits)

lemma CheckCapacityAndResize_full:
  assumes "size_m w this = capacity_m w this" "size_m w this + 1 \<noteq> 0"
    "CheckCapacityAndResize this w = Inr w1"
  shows "capacity_m w1 this =
           max (size_m w this + 1) (if capacity_m w this = 0 then 1 else capacity_m w this * 2)"
proof -
  have lt: "capacity_m w this < size_m w this + 1"
    using assms(1,2) by (simp add: word_less_nat_alt unat_plus_one)
  from assms(1,3) have "Resize this (size_m w this + 1) w = Inr w1"
    by (simp add: CheckCapacityAndResize_def)
  from Resize_fields [OF this] lt show ?thesis
    by simp
qed

lemma PushBack_full_capacity:
  assumes "wf w this" "size_m w this = capacity_m w this" "PushBack this item w = Inr w'"
  shows "capacity_m w' this =
           max (size_m w this + 1) (if capacity_m w this = 0 then 1 else capacity_m w this * 2)"
proof (cases "size_m w this + 1 = 0")
  case True
  with assms(1,3) PushBack_at_max [of w this item] show ?thesis by simp
next
  case False
  from PushBack_fields [OF assms(3)] obtain w1 where
    "CheckCapacityAndResize this w = Inr w1" "capacity_m w' = capacity_m w1"
    by blast
  with CheckCapacityAndResize_full [OF assms(2) False] show ?thesis
    by simp
qed

lemma Insert_mid_full_capacity:
  assumes "wf w this" "size_m w this = capacity_m w this" "i < unat (size_m w this)"
    "Insert this (ptr_add (begin_it w this) (int i)) item w = Inr (p, w')"
  shows "capacity_m w' this =
           max (size_m w this + 1) (if capacity_m w this = 0 then 1 else capacity_m w this * 2)"
proof (cases "size_m w this + 1 = 0")
  case True
  with assms(1,3,4) Insert_mid_at_max [of w this i item] show ?thesis by simp
next
  case False
  have "ptr_add (begin_it w this) (int i) \<noteq> cend w this"
    using wf_positions(3) [OF assms(1), of i] assms(3) by simp
  from Insert_mid_fields [OF assms(4) this] obtain w1 where
    "CheckCapacityAndResize this w = Inr w1" "capacity_m w' = capacity_m w1"
    by blast
  with CheckCapacityAndResize_full [OF assms(2) False] show ?thesis
    by simp
qed

text \<open>
  A request for \<open>2^63\<close> elements or more fails whatever the free store holds, and then
  the growing calls end with the allocation error.
\<close>

lemma no_huge_array: "2 ^ 63 \<le> unat n \<Longrightarrow> \<not> can_allocate n w"
  by (simp add: can_allocate_def)

lemma unat_max_size: "unat (- 1 :: size_t) = 2 ^ 64 - 1"
  by (simp add: unsigned_minus_1_eq_mask mask_eq_exp_minus_1)

lemma Reserve_max_fails:
  assumes "capacity_m w this < - 1"
  shows "Reserve this (- 1) w = Inl BadAlloc"
  using assms by (intro Reserve_fails no_huge_array) (simp_all add: unat_max_size)

lemma Resize_max_fails:
  assumes "capacity_m w this < - 1"
  shows "Resize this (- 1) w = Inl BadAlloc"
proof -
  have "max (- 1) (if capacity_m w this = 0 then 1 else capacity_m w this * 2) = (- 1 :: size_t)"
    by (intro max_absorb1) (rule word_n1_ge)
  then show ?thesis
    using assms by (intro Resize_fails no_huge_array) (simp_all add: unat_max_size)
qed

lemma PushBack_fails:
  assumes "size_m w this = capacity_m w this" "size_m w this + 1 \<noteq> 0"
    "\<not> can_allocate (max (size_m w this + 1)
         (if capacity_m w this = 0 then 1 else capacity_m w this * 2)) w"
  shows "PushBack this item w = Inl BadAlloc"
proof -
  have lt: "capacity_m w this < size_m w this + 1"
    using assms(1,2) by (simp add: word_less_nat_alt unat_plus_one)
  from Resize_fails [OF lt assms(3)] assms(1) show ?thesis
    by (simp add: PushBack_def CheckCapacityAndResize_def)
qed

text \<open>
  \<^verbatim>\<open>v.PushBack(v[i])\<close> on a full vector: the reference designates a slot of the block
  that \<^verbatim>\<open>Resize\<close> has deleted by the time the assignment reads it.
\<close>

lemma PushBack_own_element_full:
  assumes "wf w this" "size_m w this = capacity_m w this" "size_m w this + 1 \<noteq> 0"
    "can_allocate (max (size_m w this + 1)
       (if capacity_m w this = 0 then 1 else capacity_m w this * 2)) w"
    "base p = base (raw_ptr w (Items this))"
  shows "PushBack this (Ref p) w = Inl UndefinedBehaviour"
proof -
  from CheckCapacityAndResize_spec [OF assms(1,3)] assms(2,4) obtain w1 where
    ccr: "CheckCapacityAndResize this w = Inr w1" and
    gone: "\<forall>a. base (raw_ptr w (Items this)) = Some a \<longrightarrow> heap w1 a = None"
    by auto
  have "load (heap w1) p = Inl UndefinedBehaviour"
    using gone assms(5) by (auto simp: load_def split: option.splits)
  with ccr show ?thesis
    by (simp add: PushBack_def read_arg_def)
qed

lemma PushBack_step:
  fixes w :: "'a::default world"
  assumes "wf w v" "unat (size_m w v) = n" "unat (capacity_m w v) = 2 ^ k" "n \<le> 2 ^ k"
    "k = 0 \<or> 2 ^ (k - 1) < n" "0 < n" "n < 2 ^ 62" "3 * n \<le> avail w + 2 ^ k"
  shows "\<exists>w' k'. PushBack v (Value x) w = Inr w' \<and> wf w' v \<and> unat (size_m w' v) = Suc n \<and>
           unat (capacity_m w' v) = 2 ^ k' \<and> Suc n \<le> 2 ^ k' \<and>
           (k' = 0 \<or> 2 ^ (k' - 1) < Suc n) \<and> avail w' + 2 ^ k' = avail w + 2 ^ k \<and>
           elems w' v = elems w v @ [x]"
proof -
  have nz: "size_m w v + 1 \<noteq> 0"
    using wrapped_size_is_max(2) [of "size_m w v"] assms(2,7) by auto
  have pre: "size_m w v < capacity_m w v \<or>
     can_allocate (max (size_m w v + 1)
       (if capacity_m w v = 0 then 1 else capacity_m w v * 2)) w"
  proof (cases "size_m w v = capacity_m w v")
    case True
    then have n: "n = 2 ^ k"
      using assms(2,3) by simp
    then have "(2::nat) ^ k < 2 ^ 62"
      using assms(7) by simp
    then have k: "k < 62"
      by (simp only: power_strict_increasing_iff)
    have cz: "capacity_m w v \<noteq> 0"
      using assms(3) by (metis power_not_zero unat_0 zero_neq_numeral)
    have d: "unat (capacity_m w v * 2) = 2 ^ Suc k"
      using assms(3) k by (intro unat_double) simp_all
    have "unat (size_m w v + 1) = Suc n"
      using nz assms(2) by (simp add: unat_plus_one)
    then have "size_m w v + 1 \<le> capacity_m w v * 2"
      using d n by (simp add: word_le_nat_alt)
    then have m: "max (size_m w v + 1) (if capacity_m w v = 0 then 1 else capacity_m w v * 2) =
        capacity_m w v * 2"
      using cz by (simp add: max_def)
    have "(2::nat) ^ Suc k < 2 ^ 63"
      using k by (intro power_strict_increasing) simp_all
    moreover have "2 ^ Suc k \<le> avail w"
      using assms(8) n by simp
    ultimately have "can_allocate (capacity_m w v * 2) w"
      using d by (simp add: can_allocate_def)
    with m show ?thesis
      by simp
  next
    case False
    with assms(1) show ?thesis
      by (auto simp: wf_def)
  qed
  have rd: "read_arg (heap w) (Value x) = Inr x"
    by simp
  from PushBack_spec [OF assms(1) nz pre rd] obtain w' where
    p: "PushBack v (Value x) w = Inr w'" "wf w' v" "size_m w' v = size_m w v + 1"
      "capacity_m w' v =
             (if size_m w v = capacity_m w v
              then max (size_m w v + 1)
                     (if capacity_m w v = 0 then 1 else capacity_m w v * 2)
              else capacity_m w v)"
      "elems w' v = elems w v @ [x]"
      "avail w' + unat (capacity_m w' v) = avail w + unat (capacity_m w v)"
    by auto
  have s': "unat (size_m w' v) = Suc n"
    using p(3) nz assms(2) by (simp add: unat_plus_one)
  show ?thesis
  proof (cases "size_m w v = capacity_m w v")
    case True
    then have n: "n = 2 ^ k"
      using assms(2,3) by simp
    then have "(2::nat) ^ k < 2 ^ 62"
      using assms(7) by simp
    then have k: "k < 63"
      by (simp only: power_strict_increasing_iff)
    have cz: "capacity_m w v \<noteq> 0"
      using assms(3) by (metis power_not_zero unat_0 zero_neq_numeral)
    have d: "unat (capacity_m w v * 2) = 2 ^ Suc k"
      using assms(3) k by (rule unat_double)
    have "size_m w v + 1 \<le> capacity_m w v * 2"
      using d s' p(3) n by (simp add: word_le_nat_alt)
    then have "capacity_m w' v = capacity_m w v * 2"
      using p(4) True cz by (simp add: max_def)
    then have c': "unat (capacity_m w' v) = 2 ^ Suc k"
      using d by simp
    moreover have "Suc n \<le> 2 ^ Suc k" "2 ^ (Suc k - 1) < Suc n"
      using n by simp_all
    moreover have "avail w' + 2 ^ Suc k = avail w + 2 ^ k"
      using p(6) c' assms(3) by simp
    ultimately show ?thesis
      using p(1,2,5) s' by blast
  next
    case False
    then have "n \<noteq> 2 ^ k"
      using assms(2,3) by (metis word_unat_eq_iff)
    with assms(4) have lt: "Suc n \<le> 2 ^ k"
      by simp
    have "k \<noteq> 0"
      using lt assms(6) by (cases k) auto
    with assms(5) have "2 ^ (k - 1) < Suc n"
      by auto
    moreover have c': "unat (capacity_m w' v) = 2 ^ k"
      using p(4) False assms(3) by simp
    moreover have "avail w' + 2 ^ k = avail w + 2 ^ k"
      using p(6) c' assms(3) by simp
    ultimately show ?thesis
      using p(1,2,5) s' lt by blast
  qed
qed

lemma PushBack_all_steps:
  fixes w :: "'a::default world"
  assumes "wf w v" "unat (size_m w v) = n" "unat (capacity_m w v) = 2 ^ k" "n \<le> 2 ^ k"
    "k = 0 \<or> 2 ^ (k - 1) < n" "0 < n" "n + length xs \<le> 2 ^ 62"
    "3 * (n + length xs) \<le> avail w + 2 ^ k"
  shows "\<exists>w' k'. PushBack_all v xs w = Inr w' \<and> wf w' v \<and>
           unat (size_m w' v) = n + length xs \<and>
           unat (capacity_m w' v) = 2 ^ k' \<and> n + length xs \<le> 2 ^ k' \<and>
           (k' = 0 \<or> 2 ^ (k' - 1) < n + length xs) \<and> elems w' v = elems w v @ xs"
  using assms
proof (induction xs arbitrary: w n k)
  case Nil
  then show ?case by auto
next
  case (Cons x xs)
  have "n < 2 ^ 62" "3 * n \<le> avail w + 2 ^ k"
    using Cons.prems(7,8) by simp_all
  from PushBack_step [OF Cons.prems(1-6) this, of x] obtain w1 k1 where
    s: "PushBack v (Value x) w = Inr w1" "wf w1 v" "unat (size_m w1 v) = Suc n"
      "unat (capacity_m w1 v) = 2 ^ k1" "Suc n \<le> 2 ^ k1" "k1 = 0 \<or> 2 ^ (k1 - 1) < Suc n"
    and av: "avail w1 + 2 ^ k1 = avail w + 2 ^ k"
    and el: "elems w1 v = elems w v @ [x]"
    by blast
  have "Suc n + length xs \<le> 2 ^ 62" "3 * (Suc n + length xs) \<le> avail w1 + 2 ^ k1"
    using Cons.prems(7,8) av by simp_all
  from Cons.IH [OF s(2-6) _ this] s(1) el show ?case
    by simp
qed

lemma PushBack_all_from_empty:
  fixes w :: "'a::default world"
  assumes "wf w v" "size_m w v = 0" "capacity_m w v = 0" "xs \<noteq> []" "length xs \<le> 2 ^ 62"
    "3 * length xs \<le> avail w"
  shows "\<exists>w' k. PushBack_all v xs w = Inr w' \<and> wf w' v \<and> unat (size_m w' v) = length xs \<and>
           unat (capacity_m w' v) = 2 ^ k \<and> length xs \<le> 2 ^ k \<and>
           (k = 0 \<or> 2 ^ (k - 1) < length xs) \<and> elems w' v = xs"
proof (cases xs)
  case Nil
  with assms(4) show ?thesis by simp
next
  case (Cons x ys)
  have nz: "size_m w v + 1 \<noteq> 0"
    using assms(2) by simp
  have "can_allocate 1 w"
    using assms(6) Cons by (simp add: can_allocate_def)
  then have pre: "size_m w v < capacity_m w v \<or>
     can_allocate (max (size_m w v + 1)
       (if capacity_m w v = 0 then 1 else capacity_m w v * 2)) w"
    using assms(2,3) by simp
  have rd: "read_arg (heap w) (Value x) = Inr x"
    by simp
  have e0: "elems w v = []"
    using assms(2) by (simp add: elems_def)
  from PushBack_spec [OF assms(1) nz pre rd] assms(2,3) e0 obtain w1 where
    p: "PushBack v (Value x) w = Inr w1" "wf w1 v" "size_m w1 v = 1" "capacity_m w1 v = 1"
      "elems w1 v = [x]" "avail w1 + 1 = avail w"
    by auto
  have "1 + length ys \<le> 2 ^ 62" "3 * (1 + length ys) \<le> avail w1 + 2 ^ 0"
    using assms(5,6) Cons p(6) by simp_all
  from PushBack_all_steps [of w1 v 1 0 ys, OF p(2) _ _ _ _ _ this] p(3,4,5) obtain w' k where
    "PushBack_all v ys w1 = Inr w'" "wf w' v" "unat (size_m w' v) = 1 + length ys"
    "unat (capacity_m w' v) = 2 ^ k" "1 + length ys \<le> 2 ^ k"
    "k = 0 \<or> 2 ^ (k - 1) < 1 + length ys" "elems w' v = x # ys"
    by auto
  with p(1) Cons show ?thesis
    by auto
qed

lemma wf_full_world: "wf full_world 0"
  by (simp add: wf_def full_world_def)

lemma default_constructed:
  "wf (snd (SimpleVector_default w)) (fst (SimpleVector_default w))"
  "size_m (snd (SimpleVector_default w)) (fst (SimpleVector_default w)) = 0"
  "capacity_m (snd (SimpleVector_default w)) (fst (SimpleVector_default w)) = 0"
  "fst (SimpleVector_default w) = next_obj w"
  "avail (snd (SimpleVector_default w)) = avail w"
  by (simp_all add: SimpleVector_default_def default_members_def ArrayPtr_default_def
      new_obj_def wf_def nullptr_def)

lemma wf_size_update:
  assumes "wf w this" "n \<le> capacity_m w this"
  shows "wf (w\<lparr>size_m := (size_m w)(this := n)\<rparr>) this"
  using assms by (auto simp: wf_def split: option.splits)

lemma can_allocate_demo_world:
  "can_allocate 8 demo_world" "can_allocate 9 demo_world" "\<not> can_allocate (- 1) demo_world"
  by (simp_all add: can_allocate_def demo_world_def unat_max_size)

lemma demo_world_fields:
  "size_m demo_world 0 = 3" "capacity_m demo_world 0 = 4" "avail demo_world = 96"
  by (simp_all add: demo_world_def)

lemma full_world_fields:
  "size_m full_world 0 = 2" "capacity_m full_world 0 = 2" "avail full_world = 98"
  "raw_ptr full_world (Items 0) = Ptr (Some 1) 0" "elems full_world 0 = [1, 2]"
  by (simp_all add: full_world_def elems_def buffer_def)

subsection \<open>The worked example\<close>

text \<open>
  Starting empty, on a machine whose free store holds 100 elements, \<^verbatim>\<open>PushBack\<close> of 1,
  2, 3 gives size 3 with the capacities 1, 2, 4; \<^verbatim>\<open>Insert(begin() + 1, 99)\<close> gives
  \<open>[1, 99, 2, 3]\<close>; \<^verbatim>\<open>Erase(begin() + 1)\<close> gives \<open>[1, 2, 3]\<close> again.
\<close>

lemma spec_example:
  fixes w0 :: "int world"
  assumes "w0 = snd (SimpleVector_default (init_world 100))"
  shows "\<exists>w1 w2 w3 p w4 q w5.
           PushBack 0 (Value 1) w0 = Inr w1 \<and> capacity_m w1 0 = 1 \<and>
           PushBack 0 (Value 2) w1 = Inr w2 \<and> capacity_m w2 0 = 2 \<and>
           PushBack 0 (Value 3) w2 = Inr w3 \<and> capacity_m w3 0 = 4 \<and>
           size_m w3 0 = 3 \<and> elems w3 0 = [1, 2, 3] \<and>
           Insert 0 (ptr_add (begin_it w3 0) 1) (Value 99) w3 = Inr (p, w4) \<and>
           size_m w4 0 = 4 \<and> elems w4 0 = [1, 99, 2, 3] \<and>
           Erase 0 (ptr_add (begin_it w4 0) 1) w4 = Inr (q, w5) \<and>
           size_m w5 0 = 3 \<and> elems w5 0 = [1, 2, 3]"
proof -
  have v: "fst (SimpleVector_default (init_world 100 :: int world)) = 0"
    by (simp add: default_constructed(4) init_world_def)
  have h0: "wf w0 0" "size_m w0 0 = 0" "capacity_m w0 0 = 0"
    using default_constructed(1-3) [of "init_world 100 :: int world"]
    by (simp_all add: v assms)
  have av0: "avail w0 = 100"
    by (simp add: assms default_constructed(5) init_world_def)
  have e0: "elems w0 0 = []"
    by (simp add: elems_def h0)
  have a0: "size_m w0 0 < capacity_m w0 0 \<or>
     can_allocate (max (size_m w0 0 + 1)
       (if capacity_m w0 0 = 0 then 1 else capacity_m w0 0 * 2)) w0"
    by (simp add: h0 av0 can_allocate_def)
  from PushBack_spec [OF h0(1) _ a0, of "Value 1" 1] h0 av0 e0 obtain w1 where
    1: "PushBack 0 (Value 1) w0 = Inr w1" "wf w1 0" "size_m w1 0 = 1" "capacity_m w1 0 = 1"
      "elems w1 0 = [1]" "avail w1 = 99"
    by auto
  have a1: "size_m w1 0 < capacity_m w1 0 \<or>
     can_allocate (max (size_m w1 0 + 1)
       (if capacity_m w1 0 = 0 then 1 else capacity_m w1 0 * 2)) w1"
    by (simp add: 1 can_allocate_def)
  from PushBack_spec [OF 1(2) _ a1, of "Value 2" 2] 1 obtain w2 where
    2: "PushBack 0 (Value 2) w1 = Inr w2" "wf w2 0" "size_m w2 0 = 2" "capacity_m w2 0 = 2"
      "elems w2 0 = [1, 2]" "avail w2 = 98"
    by auto
  have a2: "size_m w2 0 < capacity_m w2 0 \<or>
     can_allocate (max (size_m w2 0 + 1)
       (if capacity_m w2 0 = 0 then 1 else capacity_m w2 0 * 2)) w2"
    by (simp add: 2 can_allocate_def)
  from PushBack_spec [OF 2(2) _ a2, of "Value 3" 3] 2 obtain w3 where
    3: "PushBack 0 (Value 3) w2 = Inr w3" "wf w3 0" "size_m w3 0 = 3" "capacity_m w3 0 = 4"
      "elems w3 0 = [1, 2, 3]"
    by auto
  have a3: "size_m w3 0 < capacity_m w3 0 \<or>
     can_allocate (max (size_m w3 0 + 1)
       (if capacity_m w3 0 = 0 then 1 else capacity_m w3 0 * 2)) w3"
    by (simp add: 3)
  from Insert_spec [OF 3(2) _ _ a3, of 1 "Value 99"] 3 obtain w4 where
    4: "Insert 0 (ptr_add (begin_it w3 0) 1) (Value 99) w3 =
          Inr (ptr_add (begin_it w4 0) 1, w4)"
      "wf w4 0" "size_m w4 0 = 4" "elems w4 0 = [1, 99, 2, 3]"
    by auto
  from Erase_spec [OF 4(2), of 1] 4 obtain w5 where
    5: "Erase 0 (ptr_add (begin_it w4 0) 1) w4 = Inr (ptr_add (begin_it w5 0) 1, w5)"
      "size_m w5 0 = 3" "elems w5 0 = [1, 2, 3]"
    by auto
  from 1 2 3 4 5 show ?thesis
    by blast
qed

text \<open>
  \<^verbatim>\<open>v.Insert(v.begin(), v[1])\<close> on \<open>[1, 2, 3]\<close> with spare capacity: the elements are
  shifted first, and the reference then reads the slot that holds the former \<open>v[0]\<close>.
\<close>

lemma Insert_own_element_example:
  "\<exists>w'. Insert 0 (begin_it demo_world 0) (Ref (Ptr (Some 2) 1)) demo_world =
           Inr (Ptr (Some 2) 0, w') \<and> elems w' 0 = [1, 1, 2, 3]"
proof -
  define w1 where "w1 = demo_world\<lparr>size_m := (size_m demo_world)(0 := 4)\<rparr>"
  define h :: "int heap" where "h = (\<lambda>_. None)(2 \<mapsto> [1, 1, 2, 3])"
  have pos: "begin_it demo_world 0 = Ptr (Some 2) 0" "cbegin demo_world 0 = Ptr (Some 2) 0"
    "cend demo_world 0 = Ptr (Some 2) 3"
    by (simp_all add: begin_it_def cbegin_def cend_def Get_def ptr_add_def demo_world_def)
  have d: "ptr_diff (Ptr (Some 2) 0) (Get demo_world (Items 0)) = Inr 0"
    by (simp add: ptr_diff_def Get_def demo_world_def)
  have ccr: "CheckCapacityAndResize 0 demo_world = Inr w1"
    by (simp add: CheckCapacityAndResize_def w1_def demo_world_def)
  have its: "ArrayPtr_index w1 (Items 0) 0 = Ptr (Some 2) 0" "end_it w1 0 = Ptr (Some 2) 4"
    by (simp_all add: ArrayPtr_index_def end_it_def Get_def ptr_add_def w1_def demo_world_def)
  have hw1: "heap w1 = (\<lambda>_. None)(2 \<mapsto> [1, 2, 3, 0])"
    by (simp add: w1_def demo_world_def)
  have cd: "copy_down (Suc (Suc (Suc 0))) (Ptr (Some 2) 3) (Ptr (Some 2) 4) (heap w1) = Inr h"
    unfolding hw1 h_def by (simp add: load_def store_def ptr_add_def)
  have sb: "std_copy_backward (Ptr (Some 2) 0) (Ptr (Some 2) 3) (Ptr (Some 2) 4)
              (heap w1) = Inr (Ptr (Some 2) 1, h)"
    using cd by (simp add: std_copy_backward_def ptr_diff_def ptr_add_def numeral_3_eq_3)
  have rd: "read_arg h (Ref (Ptr (Some 2) 1)) = Inr 1"
    by (simp add: read_arg_def load_def h_def)
  have st: "store h (Ptr (Some 2) 0) 1 = Inr ((\<lambda>_. None)(2 \<mapsto> [1, 1, 2, 3]))"
    by (simp add: store_def h_def)
  have "Insert 0 (Ptr (Some 2) 0) (Ref (Ptr (Some 2) 1)) demo_world =
          Inr (Ptr (Some 2) 0, w1\<lparr>heap := (\<lambda>_. None)(2 \<mapsto> [1, 1, 2, 3])\<rparr>)"
    unfolding Insert_def
    by (simp add: pos ptr_le_def d ccr its sb rd st ptr_add_def)
  moreover have "elems (w1\<lparr>heap := (\<lambda>_. None)(2 \<mapsto> [1, 1, 2, 3])\<rparr>) 0 = [1, 1, 2, 3]"
    by (simp add: elems_def buffer_def w1_def demo_world_def)
  ultimately show ?thesis
    unfolding pos by blast
qed

section \<open>The claims\<close>

text \<open>
  C7: \<^verbatim>\<open>Reserve(k)\<close> changes nothing when \<open>k\<close> is at most the capacity. When \<open>k\<close>
  exceeds the capacity and the free store can supply an array of \<open>k\<close> elements, the call
  returns and leaves a well-formed vector that owns a live block of exactly \<open>k\<close>
  elements: the capacity is \<open>k\<close>, the size is unchanged, the elements are the same in the
  same order, the slots behind them hold default values, and the old block has gone back
  to the free store. When the free store cannot supply the array, the call ends with the
  allocation error.
\<close>

theorem Reserve_exact:
  assumes "wf w this"
  shows "(k \<le> capacity_m w this \<longrightarrow> Reserve this k w = Inr w) \<and>
         (capacity_m w this < k \<and> can_allocate k w \<longrightarrow>
            (\<exists>w'. Reserve this k w = Inr w' \<and> wf w' this \<and> capacity_m w' this = k \<and>
                  length (buffer w' this) = unat k \<and>
                  size_m w' this = size_m w this \<and> elems w' this = elems w this \<and>
                  buffer w' this =
                    elems w this @ replicate (unat k - unat (size_m w this)) default \<and>
                  avail w' + unat k = avail w + unat (capacity_m w this))) \<and>
         (capacity_m w this < k \<and> \<not> can_allocate k w \<longrightarrow>
            Reserve this k w = Inl BadAlloc)"
proof (intro conjI impI)
  assume "k \<le> capacity_m w this"
  then show "Reserve this k w = Inr w"
    by (simp add: Reserve_def not_less [symmetric])
next
  assume a: "capacity_m w this < k \<and> can_allocate k w"
  then have lt: "capacity_m w this < k" and al: "can_allocate k w"
    by simp_all
  from Reserve_grow [OF assms lt al] obtain w' where
    r: "Reserve this k w = Inr w'" "wf w' this" "size_m w' this = size_m w this"
      "capacity_m w' this = k"
      "buffer w' this = elems w this @ replicate (unat k - unat (size_m w this)) default"
      "avail w' + unat k = avail w + unat (capacity_m w this)"
    by blast
  have "elems w' this = elems w this"
    using r length_elems [OF assms] by (simp add: elems_def [of w'])
  moreover have "length (buffer w' this) = unat k"
    using wf_length_buffer [OF r(2)] r(4) by simp
  ultimately show "\<exists>w'. Reserve this k w = Inr w' \<and> wf w' this \<and> capacity_m w' this = k \<and>
                  length (buffer w' this) = unat k \<and>
                  size_m w' this = size_m w this \<and> elems w' this = elems w this \<and>
                  buffer w' this =
                    elems w this @ replicate (unat k - unat (size_m w this)) default \<and>
                  avail w' + unat k = avail w + unat (capacity_m w this)"
    using r by blast
next
  assume "capacity_m w this < k \<and> \<not> can_allocate k w"
  then show "Reserve this k w = Inl BadAlloc"
    by (intro Reserve_fails) simp_all
qed

theorem Reserve_exact_witness:
  "wf demo_world 0 \<and>
   (2 \<le> capacity_m demo_world 0 \<and> Reserve 0 2 demo_world = Inr demo_world) \<and>
   (capacity_m demo_world 0 < 9 \<and> can_allocate 9 demo_world \<and>
      (\<exists>w'. Reserve 0 9 demo_world = Inr w' \<and> wf w' 0 \<and> capacity_m w' 0 = 9 \<and>
            length (buffer w' 0) = 9 \<and> size_m w' 0 = 3 \<and> elems w' 0 = [1, 2, 3] \<and>
            buffer w' 0 = [1, 2, 3, 0, 0, 0, 0, 0, 0] \<and> avail w' = 91)) \<and>
   (capacity_m demo_world 0 < - 1 \<and> \<not> can_allocate (- 1) demo_world \<and>
      Reserve 0 (- 1) demo_world = Inl BadAlloc)"
proof -
  note c = demo_world_fields
  have h1: "(2 :: size_t) \<le> capacity_m demo_world 0"
    by (simp add: c)
  have h2: "capacity_m demo_world 0 < 9 \<and> can_allocate 9 demo_world"
    by (simp add: c can_allocate_demo_world)
  have h3: "capacity_m demo_world 0 < - 1 \<and> \<not> can_allocate (- 1) demo_world"
    by (simp add: c can_allocate_demo_world word_less_nat_alt unat_max_size)
  have r: "replicate 6 (0 :: int) = [0, 0, 0, 0, 0, 0]"
    by (simp add: numeral_eq_Suc)
  note t2 = Reserve_exact [OF wf_demo_world, of 2, THEN conjunct1, THEN mp, OF h1]
  note t9 = Reserve_exact [OF wf_demo_world, of 9, THEN conjunct2, THEN conjunct1, THEN mp, OF h2]
  note tm = Reserve_exact [OF wf_demo_world, of "- 1", THEN conjunct2, THEN conjunct2, THEN mp,
      OF h3]
  from t9 obtain w' where
    "Reserve 0 9 demo_world = Inr w'" "wf w' 0" "capacity_m w' 0 = 9"
    "length (buffer w' 0) = 9" "size_m w' 0 = 3" "elems w' 0 = [1, 2, 3]"
    "buffer w' 0 = [1, 2, 3, 0, 0, 0, 0, 0, 0]" "avail w' = 91"
    by (auto simp: c elems_demo_world r default_int_def)
  then have "\<exists>w'. Reserve 0 9 demo_world = Inr w' \<and> wf w' 0 \<and> capacity_m w' 0 = 9 \<and>
            length (buffer w' 0) = 9 \<and> size_m w' 0 = 3 \<and> elems w' 0 = [1, 2, 3] \<and>
            buffer w' 0 = [1, 2, 3, 0, 0, 0, 0, 0, 0] \<and> avail w' = 91"
    by blast
  with wf_demo_world h1 h2 h3 t2 tm show ?thesis
    by simp
qed

text \<open>
  C7, as the claim has it for every \<open>k\<close> above the capacity: \<^verbatim>\<open>Reserve(SIZE_MAX)\<close> on the
  vector \<open>[1, 2, 3]\<close> of capacity 4 does not leave the capacity \<open>SIZE_MAX\<close>: the
  \<^verbatim>\<open>new\<close>-expression throws, whatever the free store holds (\<open>Reserve_max_fails\<close>).
\<close>

theorem Reserve_max_throws:
  "wf demo_world 0 \<and> capacity_m demo_world 0 < - 1 \<and>
   Reserve 0 (- 1) demo_world = Inl BadAlloc"
proof -
  have "capacity_m demo_world 0 < - 1"
    by (simp add: demo_world_fields word_less_nat_alt unat_max_size)
  with Reserve_max_fails [of demo_world 0] wf_demo_world show ?thesis
    by simp
qed

text \<open>
  C8: a move assignment of an \<^verbatim>\<open>ArrayPtr\<close> from itself. For \<^verbatim>\<open>ArrayPtr<int> a(1);
  a = std::move(a);\<close> the assignment deletes the block, and afterwards \<open>a\<close> still holds
  the address of the deleted block: it is not null, the block is gone, and the destructor
  of \<open>a\<close> deletes it a second time. (Between two different objects the move constructor
  and the move assignment do what the claim says: \<open>ArrayPtr_move_distinct\<close>,
  \<open>ArrayPtr_move_assign_distinct\<close>.)
\<close>

theorem ArrayPtr_self_move_assign_dangles:
  "\<exists>w0 w'. ArrayPtr_size (Local 0) 1 (init_world 100 :: int world) = Inr w0 \<and>
        ArrayPtr_move_assign (Local 0) (Local 0) w0 = Inr w' \<and>
        raw_ptr w' (Local 0) = Ptr (Some 0) 0 \<and> raw_ptr w' (Local 0) \<noteq> nullptr \<and>
        heap w' 0 = None \<and> ArrayPtr_dtor (Local 0) w' = Inl UndefinedBehaviour"
  by (simp add: ArrayPtr_move_assign_def ArrayPtr_size_def new_array_def can_allocate_def
      init_world_def delete_array_def ArrayPtr_dtor_def nullptr_def Let_def)

text \<open>
  C10: assigning a vector to itself, by copy or by move, returns at once and leaves the
  whole store as it was: the size, the capacity and the elements are the same, and the
  buffer is neither reallocated nor touched.
\<close>

theorem self_assignment_unchanged:
  "copy_assign this this w = Inr w \<and> move_assign this this w = Inr w"
  by (simp add: copy_assign_def move_assign_def)

text \<open>
  C3: \<^verbatim>\<open>Resize(n)\<close> on a well-formed vector, in three cases. If \<open>n\<close> exceeds the capacity
  and the free store can supply an array of \<open>max n (max (capacity * 2) 1)\<close> elements, the
  call returns and leaves a well-formed vector that owns a live block of that many
  elements: that is the new capacity, the old elements stay in order, followed by default
  values up to the new size \<open>n\<close>. If the free store cannot supply the array, the call ends
  with the allocation error. If \<open>n\<close> exceeds the size but not the capacity, the call
  returns, the old elements are followed by default values up to the new size \<open>n\<close>, and
  the capacity is unchanged. If \<open>n\<close> is at most the size, the call returns, the size
  becomes \<open>n\<close>, the first \<open>n\<close> elements and the capacity stay. The vector is well formed
  afterwards in each case.
\<close>

theorem Resize_cases:
  assumes "wf w this"
  shows "(capacity_m w this < n \<and>
          can_allocate (max n (max (capacity_m w this * 2) 1)) w \<longrightarrow>
            (\<exists>w'. Resize this n w = Inr w' \<and> wf w' this \<and>
                  capacity_m w' this = max n (max (capacity_m w this * 2) 1) \<and>
                  length (buffer w' this) = unat (max n (max (capacity_m w this * 2) 1)) \<and>
                  size_m w' this = n \<and>
                  elems w' this =
                    elems w this @ replicate (unat n - unat (size_m w this)) default \<and>
                  avail w' + unat (capacity_m w' this) = avail w + unat (capacity_m w this))) \<and>
         (capacity_m w this < n \<and>
          \<not> can_allocate (max n (max (capacity_m w this * 2) 1)) w \<longrightarrow>
            Resize this n w = Inl BadAlloc) \<and>
         (size_m w this < n \<and> n \<le> capacity_m w this \<longrightarrow>
            (\<exists>w'. Resize this n w = Inr w' \<and> wf w' this \<and>
                  capacity_m w' this = capacity_m w this \<and>
                  size_m w' this = n \<and>
                  elems w' this =
                    elems w this @ replicate (unat n - unat (size_m w this)) default)) \<and>
         (n \<le> size_m w this \<longrightarrow>
            (\<exists>w'. Resize this n w = Inr w' \<and> wf w' this \<and>
                  capacity_m w' this = capacity_m w this \<and>
                  size_m w' this = n \<and>
                  elems w' this = take (unat n) (elems w this)))"
proof (intro conjI impI)
  assume a: "capacity_m w this < n \<and> can_allocate (max n (max (capacity_m w this * 2) 1)) w"
  then have lt: "capacity_m w this < n"
    by simp
  note eq = new_capacity_as_spec [OF lt]
  from a have al: "can_allocate
      (max n (if capacity_m w this = 0 then 1 else capacity_m w this * 2)) w"
    by (simp only: eq)
  from Resize_grow [OF assms lt al] obtain w' where
    r: "Resize this n w = Inr w'" "wf w' this" "size_m w' this = n"
      "capacity_m w' this = max n (if capacity_m w this = 0 then 1 else capacity_m w this * 2)"
      "buffer w' this = elems w this @
         replicate (unat (capacity_m w' this) - unat (size_m w this)) default"
      "avail w' + unat (capacity_m w' this) = avail w + unat (capacity_m w this)"
    by blast
  have le: "unat (size_m w this) \<le> unat n" "unat n \<le> unat (capacity_m w' this)"
    using lt wf_size_le [OF assms] r(4) new_capacity_bounds(1) [OF lt]
    by (simp_all add: word_less_nat_alt word_le_nat_alt)
  have el: "elems w' this = elems w this @ replicate (unat n - unat (size_m w this)) default"
    using r(3,5) le length_elems [OF assms] by (simp add: elems_def [of w'] min_def)
  have cp: "capacity_m w' this = max n (max (capacity_m w this * 2) 1)"
    using r(4) by (simp only: eq)
  have ln: "length (buffer w' this) = unat (max n (max (capacity_m w this * 2) 1))"
    using wf_length_buffer [OF r(2)] by (simp only: cp)
  from r(1,2,3,6) el cp ln
  show "\<exists>w'. Resize this n w = Inr w' \<and> wf w' this \<and>
          capacity_m w' this = max n (max (capacity_m w this * 2) 1) \<and>
          length (buffer w' this) = unat (max n (max (capacity_m w this * 2) 1)) \<and>
          size_m w' this = n \<and>
          elems w' this = elems w this @ replicate (unat n - unat (size_m w this)) default \<and>
          avail w' + unat (capacity_m w' this) = avail w + unat (capacity_m w this)"
    by blast
next
  assume a: "capacity_m w this < n \<and>
    \<not> can_allocate (max n (max (capacity_m w this * 2) 1)) w"
  then have lt: "capacity_m w this < n"
    by simp
  from a have "\<not> can_allocate
      (max n (if capacity_m w this = 0 then 1 else capacity_m w this * 2)) w"
    by (simp only: new_capacity_as_spec [OF lt]) simp
  with lt show "Resize this n w = Inl BadAlloc"
    by (rule Resize_fails)
next
  assume a: "size_m w this < n \<and> n \<le> capacity_m w this"
  from Resize_expose [OF assms] a obtain w' where
    r: "Resize this n w = Inr w'" "wf w' this" "size_m w' this = n"
      "capacity_m w' this = capacity_m w this"
      "buffer w' this = elems w this @
         replicate (unat n - unat (size_m w this)) default @ drop (unat n) (buffer w this)"
    by blast
  have le: "unat (size_m w this) \<le> unat n"
    using a by (simp add: word_less_nat_alt)
  have "elems w' this = elems w this @ replicate (unat n - unat (size_m w this)) default"
    using r(3,5) le length_elems [OF assms] by (simp add: elems_def [of w'])
  with r(1,2,3,4) show "\<exists>w'. Resize this n w = Inr w' \<and> wf w' this \<and>
          capacity_m w' this = capacity_m w this \<and> size_m w' this = n \<and>
          elems w' this = elems w this @ replicate (unat n - unat (size_m w this)) default"
    by blast
next
  assume a: "n \<le> size_m w this"
  have le: "unat n \<le> unat (size_m w this)"
    using a by (simp add: word_le_nat_alt)
  from assms have sc: "size_m w this \<le> capacity_m w this"
    by (simp add: wf_def)
  with a have "n \<le> capacity_m w this"
    by simp
  then have "wf (w\<lparr>size_m := (size_m w)(this := n)\<rparr>) this"
    by (rule wf_size_update [OF assms])
  with Resize_shrink [OF a sc] le
  show "\<exists>w'. Resize this n w = Inr w' \<and> wf w' this \<and>
          capacity_m w' this = capacity_m w this \<and> size_m w' this = n \<and>
          elems w' this = take (unat n) (elems w this)"
    by (simp add: elems_def buffer_size_update min_def)
qed

theorem Resize_cases_witness:
  "wf demo_world 0 \<and>
   (capacity_m demo_world 0 < 7 \<and>
    can_allocate (max 7 (max (capacity_m demo_world 0 * 2) 1)) demo_world \<and>
      (\<exists>w'. Resize 0 7 demo_world = Inr w' \<and> wf w' 0 \<and> capacity_m w' 0 = 8 \<and>
            length (buffer w' 0) = 8 \<and> size_m w' 0 = 7 \<and>
            elems w' 0 = [1, 2, 3, 0, 0, 0, 0] \<and> avail w' = 92)) \<and>
   (capacity_m demo_world 0 < - 1 \<and>
    \<not> can_allocate (max (- 1) (max (capacity_m demo_world 0 * 2) 1)) demo_world \<and>
      Resize 0 (- 1) demo_world = Inl BadAlloc) \<and>
   (size_m demo_world 0 < 4 \<and> 4 \<le> capacity_m demo_world 0 \<and>
      (\<exists>w'. Resize 0 4 demo_world = Inr w' \<and> wf w' 0 \<and> capacity_m w' 0 = 4 \<and>
            size_m w' 0 = 4 \<and> elems w' 0 = [1, 2, 3, 0])) \<and>
   (2 \<le> size_m demo_world 0 \<and>
      (\<exists>w'. Resize 0 2 demo_world = Inr w' \<and> wf w' 0 \<and> capacity_m w' 0 = 4 \<and>
            size_m w' 0 = 2 \<and> elems w' 0 = [1, 2]))"
proof -
  note c = demo_world_fields
  have m: "max 7 (max (capacity_m demo_world 0 * 2) 1) = 8"
    "max (- 1) (max (capacity_m demo_world 0 * 2) 1) = - 1"
    by (simp_all add: c max_absorb1 word_n1_ge)
  have h1: "capacity_m demo_world 0 < 7 \<and>
      can_allocate (max 7 (max (capacity_m demo_world 0 * 2) 1)) demo_world"
    unfolding m by (simp add: c can_allocate_demo_world)
  have h2: "capacity_m demo_world 0 < - 1 \<and>
      \<not> can_allocate (max (- 1) (max (capacity_m demo_world 0 * 2) 1)) demo_world"
    unfolding m by (simp add: c can_allocate_demo_world word_less_nat_alt unat_max_size)
  have h3: "size_m demo_world 0 < 4 \<and> 4 \<le> capacity_m demo_world 0"
    by (simp add: c)
  have h4: "2 \<le> size_m demo_world 0"
    by (simp add: c)
  have r: "replicate 4 (0 :: int) = [0, 0, 0, 0]"
    by (simp add: numeral_eq_Suc)
  note t1 = Resize_cases [OF wf_demo_world, of 7, THEN conjunct1, THEN mp, OF h1]
  note t2 = Resize_cases [OF wf_demo_world, of "- 1", THEN conjunct2, THEN conjunct1, THEN mp,
      OF h2]
  note t3 = Resize_cases [OF wf_demo_world, of 4, THEN conjunct2, THEN conjunct2,
      THEN conjunct1, THEN mp, OF h3]
  note t4 = Resize_cases [OF wf_demo_world, of 2, THEN conjunct2, THEN conjunct2,
      THEN conjunct2, THEN mp, OF h4]
  from t1 have 1: "\<exists>w'. Resize 0 7 demo_world = Inr w' \<and> wf w' 0 \<and> capacity_m w' 0 = 8 \<and>
            length (buffer w' 0) = 8 \<and> size_m w' 0 = 7 \<and>
            elems w' 0 = [1, 2, 3, 0, 0, 0, 0] \<and> avail w' = 92"
    unfolding m by (auto simp: c elems_demo_world r default_int_def)
  from t3 have 3: "\<exists>w'. Resize 0 4 demo_world = Inr w' \<and> wf w' 0 \<and> capacity_m w' 0 = 4 \<and>
            size_m w' 0 = 4 \<and> elems w' 0 = [1, 2, 3, 0]"
    by (simp add: c elems_demo_world default_int_def)
  from t4 have 4: "\<exists>w'. Resize 0 2 demo_world = Inr w' \<and> wf w' 0 \<and> capacity_m w' 0 = 4 \<and>
            size_m w' 0 = 2 \<and> elems w' 0 = [1, 2]"
    by (simp add: c elems_demo_world)
  from wf_demo_world h1 h2 h3 h4 1 t2 3 4 show ?thesis
    by simp
qed

text \<open>
  C3, as the claim has it for every new size above the capacity: \<^verbatim>\<open>Resize(SIZE_MAX)\<close>
  on the vector \<open>[1, 2, 3]\<close> of capacity 4 does not leave the size and the capacity
  \<open>SIZE_MAX\<close>: the \<^verbatim>\<open>new\<close>-expression throws, whatever the free store holds
  (\<open>Resize_max_fails\<close>).
\<close>

theorem Resize_max_throws:
  "wf demo_world 0 \<and> capacity_m demo_world 0 < - 1 \<and>
   Resize 0 (- 1) demo_world = Inl BadAlloc"
proof -
  have "capacity_m demo_world 0 < - 1"
    by (simp add: demo_world_fields word_less_nat_alt unat_max_size)
  with Resize_max_fails [of demo_world 0] wf_demo_world show ?thesis
    by simp
qed

text \<open>
  C4: \<^verbatim>\<open>Insert\<close> at \<^verbatim>\<open>end()\<close> leaves the same store as \<^verbatim>\<open>PushBack\<close> of the same
  argument, or ends with the same error, for the copying and for the moving overload and
  for every argument. On a well-formed vector of fewer than \<open>2^64 - 1\<close> elements (so
  that \<^verbatim>\<open>size_ + 1\<close> does not wrap), when the buffer need not grow or the free store can
  supply the new one, and the argument is an object of the caller's that holds \<open>x\<close> (or,
  when the buffer does not grow, any reference that reads \<open>x\<close>), both return; the vector
  is well formed, its elements are the old ones followed by \<open>x\<close>, and the iterator
  returned is the last slot of the vector, which holds \<open>x\<close>. When the buffer grows and
  the argument refers to the vector's own block, as in \<^verbatim>\<open>v.PushBack(v[0])\<close>, both calls
  read the block \<^verbatim>\<open>Resize\<close> has deleted: the behaviour of both is undefined.
\<close>

theorem Insert_at_end_is_PushBack:
  "drop_result (Insert this (cend w this) item w) = PushBack this item w \<and>
   drop_result (Insert_move this (cend w this) item w) = PushBack_move this item w \<and>
   (wf w this \<and> size_m w this + 1 \<noteq> 0 \<and>
    (size_m w this < capacity_m w this \<or>
     can_allocate (max (size_m w this + 1)
       (if capacity_m w this = 0 then 1 else capacity_m w this * 2)) w) \<and>
    read_arg (heap w) item = Inr x \<and>
    (size_m w this < capacity_m w this \<or> is_Value item) \<longrightarrow>
      (\<exists>w'. PushBack this item w = Inr w' \<and> PushBack_move this item w = Inr w' \<and>
            Insert this (cend w this) item w =
              Inr (ArrayPtr_index w' (Items this) (size_m w' this - 1), w') \<and>
            Insert_move this (cend w this) item w =
              Inr (ArrayPtr_index w' (Items this) (size_m w' this - 1), w') \<and>
            load (heap w') (ArrayPtr_index w' (Items this) (size_m w' this - 1)) = Inr x \<and>
            wf w' this \<and>
            size_m w' this = size_m w this + 1 \<and>
            elems w' this = elems w this @ [x])) \<and>
   (wf w this \<and> size_m w this = capacity_m w this \<and> size_m w this + 1 \<noteq> 0 \<and>
    can_allocate (max (size_m w this + 1)
      (if capacity_m w this = 0 then 1 else capacity_m w this * 2)) w \<and>
    base p = base (raw_ptr w (Items this)) \<longrightarrow>
      PushBack this (Ref p) w = Inl UndefinedBehaviour \<and>
      PushBack_move this (Ref p) w = Inl UndefinedBehaviour \<and>
      Insert this (cend w this) (Ref p) w = Inl UndefinedBehaviour \<and>
      Insert_move this (cend w this) (Ref p) w = Inl UndefinedBehaviour)"
proof (intro conjI impI)
  show "drop_result (Insert this (cend w this) item w) = PushBack this item w"
    by (rule drop_result_Insert_end)
  show "drop_result (Insert_move this (cend w this) item w) = PushBack_move this item w"
    by (rule drop_result_Insert_move_end)
next
  assume a: "wf w this \<and> size_m w this + 1 \<noteq> 0 \<and>
    (size_m w this < capacity_m w this \<or>
     can_allocate (max (size_m w this + 1)
       (if capacity_m w this = 0 then 1 else capacity_m w this * 2)) w) \<and>
    read_arg (heap w) item = Inr x \<and>
    (size_m w this < capacity_m w this \<or> is_Value item)"
  then have a1: "wf w this" and a2: "size_m w this + 1 \<noteq> 0"
    and a3: "size_m w this < capacity_m w this \<or>
     can_allocate (max (size_m w this + 1)
       (if capacity_m w this = 0 then 1 else capacity_m w this * 2)) w"
    and a4: "read_arg (heap w) item = Inr x"
    and a5: "size_m w this < capacity_m w this \<or> is_Value item"
    by simp_all
  define s where "s = unat (size_m w this)"
  from Insert_end [OF a1 a2 a3 a4 a5] obtain w' where
    p: "PushBack this item w = Inr w'"
      "Insert this (cend w this) item w = Inr (ptr_add (begin_it w' this) (int s), w')"
      "wf w' this" "size_m w' this = size_m w this + 1"
      "elems w' this = elems w this @ [x]"
    unfolding s_def by blast
  have le: "ptr_le (cbegin w this) (cend w this)" "ptr_le (cend w this) (cend w this)"
    by (simp_all add: cbegin_def cend_def ptr_le_def ptr_add_def)
  have s': "unat (size_m w' this) = Suc s"
    using p(4) a2 by (simp add: unat_plus_one s_def)
  have "uint (size_m w this) = int s"
    by (simp add: s_def)
  then have idx: "ArrayPtr_index w' (Items this) (size_m w this) =
             ptr_add (begin_it w' this) (int s)"
    by (simp add: ArrayPtr_index_def begin_it_def Get_def)
  have "load (heap w') (ptr_add (begin_it w' this) (int s)) = Inr (elems w' this ! s)"
    using p(3) s' by (intro load_elems) simp_all
  also have "elems w' this ! s = x"
  proof -
    have "length (elems w this) = s"
      using length_elems [OF a1] by (simp add: s_def)
    then show ?thesis
      by (simp add: p(5) nth_append)
  qed
  finally have ld: "load (heap w') (ptr_add (begin_it w' this) (int s)) = Inr x" .
  show "\<exists>w'. PushBack this item w = Inr w' \<and> PushBack_move this item w = Inr w' \<and>
            Insert this (cend w this) item w =
              Inr (ArrayPtr_index w' (Items this) (size_m w' this - 1), w') \<and>
            Insert_move this (cend w this) item w =
              Inr (ArrayPtr_index w' (Items this) (size_m w' this - 1), w') \<and>
            load (heap w') (ArrayPtr_index w' (Items this) (size_m w' this - 1)) = Inr x \<and>
            wf w' this \<and>
            size_m w' this = size_m w this + 1 \<and>
            elems w' this = elems w this @ [x]"
    using p ld Insert_move_eq [OF le, of item]
    by (intro exI [of _ w']) (simp add: idx PushBack_move_eq)
next
  assume a: "wf w this \<and> size_m w this = capacity_m w this \<and> size_m w this + 1 \<noteq> 0 \<and>
    can_allocate (max (size_m w this + 1)
      (if capacity_m w this = 0 then 1 else capacity_m w this * 2)) w \<and>
    base p = base (raw_ptr w (Items this))"
  then have b1: "wf w this" and b2: "size_m w this = capacity_m w this"
    and b3: "size_m w this + 1 \<noteq> 0"
    and b4: "can_allocate (max (size_m w this + 1)
      (if capacity_m w this = 0 then 1 else capacity_m w this * 2)) w"
    and b5: "base p = base (raw_ptr w (Items this))"
    by blast+
  have pb: "PushBack this (Ref p) w = Inl UndefinedBehaviour"
    using b1 b2 b3 b4 b5 by (rule PushBack_own_element_full)
  have le: "ptr_le (cbegin w this) (cend w this)" "ptr_le (cend w this) (cend w this)"
    by (simp_all add: cbegin_def cend_def ptr_le_def ptr_add_def)
  have ins: "Insert this (cend w this) (Ref p) w = Inl UndefinedBehaviour"
    using pb le by (simp add: Insert_def)
  show "PushBack this (Ref p) w = Inl UndefinedBehaviour"
    by (rule pb)
  show "PushBack_move this (Ref p) w = Inl UndefinedBehaviour"
    using pb by (simp add: PushBack_move_eq)
  show "Insert this (cend w this) (Ref p) w = Inl UndefinedBehaviour"
    by (rule ins)
  show "Insert_move this (cend w this) (Ref p) w = Inl UndefinedBehaviour"
    using ins Insert_move_eq [OF le, of "Ref p"] by simp
qed

theorem Insert_at_end_is_PushBack_witness:
  "(wf demo_world 0 \<and> size_m demo_world 0 + 1 \<noteq> 0 \<and>
    size_m demo_world 0 < capacity_m demo_world 0 \<and>
    read_arg (heap demo_world) (Ref (Ptr (Some 2) 0)) = Inr 1) \<and>
   (\<exists>w'. PushBack 0 (Ref (Ptr (Some 2) 0)) demo_world = Inr w' \<and>
         PushBack_move 0 (Ref (Ptr (Some 2) 0)) demo_world = Inr w' \<and>
         Insert 0 (cend demo_world 0) (Ref (Ptr (Some 2) 0)) demo_world =
           Inr (ArrayPtr_index w' (Items 0) (size_m w' 0 - 1), w') \<and>
         Insert_move 0 (cend demo_world 0) (Ref (Ptr (Some 2) 0)) demo_world =
           Inr (ArrayPtr_index w' (Items 0) (size_m w' 0 - 1), w') \<and>
         load (heap w') (ArrayPtr_index w' (Items 0) (size_m w' 0 - 1)) = Inr 1 \<and>
         wf w' 0 \<and> size_m w' 0 = 4 \<and> elems w' 0 = [1, 2, 3, 1]) \<and>
   (wf full_world 0 \<and> size_m full_world 0 + 1 \<noteq> 0 \<and>
    can_allocate (max (size_m full_world 0 + 1)
      (if capacity_m full_world 0 = 0 then 1 else capacity_m full_world 0 * 2)) full_world \<and>
    read_arg (heap full_world) (Value 99) = Inr 99 \<and> is_Value (Value 99 :: int arg)) \<and>
   (\<exists>w'. PushBack 0 (Value 99) full_world = Inr w' \<and>
         PushBack_move 0 (Value 99) full_world = Inr w' \<and>
         Insert 0 (cend full_world 0) (Value 99) full_world =
           Inr (ArrayPtr_index w' (Items 0) (size_m w' 0 - 1), w') \<and>
         Insert_move 0 (cend full_world 0) (Value 99) full_world =
           Inr (ArrayPtr_index w' (Items 0) (size_m w' 0 - 1), w') \<and>
         load (heap w') (ArrayPtr_index w' (Items 0) (size_m w' 0 - 1)) = Inr 99 \<and>
         wf w' 0 \<and> size_m w' 0 = 3 \<and> elems w' 0 = [1, 2, 99]) \<and>
   (size_m full_world 0 = capacity_m full_world 0 \<and>
    base (Ptr (Some 1) 0) = base (raw_ptr full_world (Items 0))) \<and>
   PushBack 0 (Ref (Ptr (Some 1) 0)) full_world = Inl UndefinedBehaviour \<and>
   PushBack_move 0 (Ref (Ptr (Some 1) 0)) full_world = Inl UndefinedBehaviour \<and>
   Insert 0 (cend full_world 0) (Ref (Ptr (Some 1) 0)) full_world = Inl UndefinedBehaviour \<and>
   Insert_move 0 (cend full_world 0) (Ref (Ptr (Some 1) 0)) full_world =
     Inl UndefinedBehaviour"
proof -
  note c = demo_world_fields
  note f = full_world_fields
  have rd: "read_arg (heap demo_world) (Ref (Ptr (Some 2) 0)) = Inr 1"
    by (simp add: read_arg_def load_def demo_world_def)
  have al: "can_allocate (max (size_m full_world 0 + 1)
      (if capacity_m full_world 0 = 0 then 1 else capacity_m full_world 0 * 2)) full_world"
    by (simp add: f can_allocate_def)
  have h1: "wf demo_world 0 \<and> size_m demo_world 0 + 1 \<noteq> 0 \<and>
    (size_m demo_world 0 < capacity_m demo_world 0 \<or>
     can_allocate (max (size_m demo_world 0 + 1)
       (if capacity_m demo_world 0 = 0 then 1 else capacity_m demo_world 0 * 2)) demo_world) \<and>
    read_arg (heap demo_world) (Ref (Ptr (Some 2) 0)) = Inr 1 \<and>
    (size_m demo_world 0 < capacity_m demo_world 0 \<or> is_Value (Ref (Ptr (Some 2) 0) :: int arg))"
    by (simp add: wf_demo_world c rd)
  have h2: "wf full_world 0 \<and> size_m full_world 0 + 1 \<noteq> 0 \<and>
    (size_m full_world 0 < capacity_m full_world 0 \<or>
     can_allocate (max (size_m full_world 0 + 1)
       (if capacity_m full_world 0 = 0 then 1 else capacity_m full_world 0 * 2)) full_world) \<and>
    read_arg (heap full_world) (Value 99) = Inr 99 \<and>
    (size_m full_world 0 < capacity_m full_world 0 \<or> is_Value (Value 99 :: int arg))"
    using al by (simp add: wf_full_world f)
  have h3: "wf full_world 0 \<and> size_m full_world 0 = capacity_m full_world 0 \<and>
    size_m full_world 0 + 1 \<noteq> 0 \<and>
    can_allocate (max (size_m full_world 0 + 1)
      (if capacity_m full_world 0 = 0 then 1 else capacity_m full_world 0 * 2)) full_world \<and>
    base (Ptr (Some 1) 0) = base (raw_ptr full_world (Items 0))"
    using al by (simp add: wf_full_world f)
  note t1 = Insert_at_end_is_PushBack [of 0 demo_world "Ref (Ptr (Some 2) 0)" 1,
      THEN conjunct2, THEN conjunct2, THEN conjunct1, THEN mp, OF h1]
  note t2 = Insert_at_end_is_PushBack [of 0 full_world "Value 99" 99,
      THEN conjunct2, THEN conjunct2, THEN conjunct1, THEN mp, OF h2]
  note t3 = Insert_at_end_is_PushBack [of 0 full_world _ _ "Ptr (Some 1) 0",
      THEN conjunct2, THEN conjunct2, THEN conjunct2, THEN mp, OF h3]
  from t1 have 1: "\<exists>w'. PushBack 0 (Ref (Ptr (Some 2) 0)) demo_world = Inr w' \<and>
         PushBack_move 0 (Ref (Ptr (Some 2) 0)) demo_world = Inr w' \<and>
         Insert 0 (cend demo_world 0) (Ref (Ptr (Some 2) 0)) demo_world =
           Inr (ArrayPtr_index w' (Items 0) (size_m w' 0 - 1), w') \<and>
         Insert_move 0 (cend demo_world 0) (Ref (Ptr (Some 2) 0)) demo_world =
           Inr (ArrayPtr_index w' (Items 0) (size_m w' 0 - 1), w') \<and>
         load (heap w') (ArrayPtr_index w' (Items 0) (size_m w' 0 - 1)) = Inr 1 \<and>
         wf w' 0 \<and> size_m w' 0 = 4 \<and> elems w' 0 = [1, 2, 3, 1]"
    by (simp add: c elems_demo_world)
  from t2 have 2: "\<exists>w'. PushBack 0 (Value 99) full_world = Inr w' \<and>
         PushBack_move 0 (Value 99) full_world = Inr w' \<and>
         Insert 0 (cend full_world 0) (Value 99) full_world =
           Inr (ArrayPtr_index w' (Items 0) (size_m w' 0 - 1), w') \<and>
         Insert_move 0 (cend full_world 0) (Value 99) full_world =
           Inr (ArrayPtr_index w' (Items 0) (size_m w' 0 - 1), w') \<and>
         load (heap w') (ArrayPtr_index w' (Items 0) (size_m w' 0 - 1)) = Inr 99 \<and>
         wf w' 0 \<and> size_m w' 0 = 3 \<and> elems w' 0 = [1, 2, 99]"
    by (simp add: f)
  from h1 h2 h3 1 2 t3 rd al show ?thesis
    by (simp add: c f)
qed

text \<open>
  C5: for a well-formed vector and the position \<open>begin + i\<close> with \<open>i < size\<close>,
  \<^verbatim>\<open>Erase\<close> returns; the elements before \<open>i\<close> stay, those after \<open>i\<close> move down by one
  in order, the capacity is unchanged and the size is one less. The iterator returned is
  again \<open>begin + i\<close>: it equals \<^verbatim>\<open>end()\<close> exactly when the erased element was the
  last one, and otherwise designates the element that followed the erased one.
\<close>

theorem Erase_shifts:
  assumes "wf w this" "i < unat (size_m w this)"
  shows "\<exists>w'. Erase this (ptr_add (begin_it w this) (int i)) w =
                 Inr (ptr_add (begin_it w' this) (int i), w') \<and>
           elems w' this = take i (elems w this) @ drop (Suc i) (elems w this) \<and>
           capacity_m w' this = capacity_m w this \<and>
           size_m w' this = size_m w this - 1 \<and>
           (ptr_add (begin_it w' this) (int i) = end_it w' this \<longleftrightarrow>
              Suc i = unat (size_m w this)) \<and>
           (Suc i < unat (size_m w this) \<longrightarrow>
              load (heap w') (ptr_add (begin_it w' this) (int i)) = Inr (elems w this ! Suc i))"
proof -
  define s where "s = unat (size_m w this)"
  from Erase_spec [OF assms] obtain w' where
    e: "Erase this (ptr_add (begin_it w this) (int i)) w =
          Inr (ptr_add (begin_it w' this) (int i), w')"
      "wf w' this" "size_m w' this = size_m w this - 1"
      "capacity_m w' this = capacity_m w this"
      "elems w' this = take i (elems w this) @ drop (Suc i) (elems w this)"
    by blast
  have nz: "size_m w this \<noteq> 0"
    using assms(2) by auto
  have s': "unat (size_m w' this) = s - 1"
    using e(3) nz by (simp add: unat_minus_one s_def)
  have us: "uint (size_m w' this) = int (s - 1)"
    using s' by (simp add: uint_nat del: of_nat_diff)
  have off: "offs (raw_ptr w' (Items this)) = 0"
    using e(2) by (simp add: wf_def)
  have it: "ptr_add (begin_it w' this) (int i) = end_it w' this \<longleftrightarrow> Suc i = s"
    using assms(2) off
    by (auto simp: begin_it_def end_it_def Get_def ptr_add_def us s_def [symmetric]
        simp del: of_nat_diff)
  have ld: "Suc i < s \<longrightarrow>
        load (heap w') (ptr_add (begin_it w' this) (int i)) = Inr (elems w this ! Suc i)"
  proof
    assume lt: "Suc i < s"
    then have "load (heap w') (ptr_add (begin_it w' this) (int i)) = Inr (elems w' this ! i)"
      using e(2) s' by (intro load_elems) simp_all
    also have "elems w' this ! i = elems w this ! Suc i"
      using lt length_elems [OF assms(1)]
      by (simp add: e(5) nth_append s_def [symmetric] min_def)
    finally show "load (heap w') (ptr_add (begin_it w' this) (int i)) =
        Inr (elems w this ! Suc i)" .
  qed
  show ?thesis
    using e it ld unfolding s_def by (intro exI [of _ w']) simp
qed

theorem Erase_shifts_witness:
  "(wf demo_world 0 \<and> 1 < unat (size_m demo_world 0)) \<and>
   (\<exists>w'. Erase 0 (ptr_add (begin_it demo_world 0) 1) demo_world =
            Inr (ptr_add (begin_it w' 0) 1, w') \<and>
         elems w' 0 = [1, 3] \<and> capacity_m w' 0 = 4 \<and> size_m w' 0 = 2 \<and>
         ptr_add (begin_it w' 0) 1 \<noteq> end_it w' 0 \<and>
         load (heap w') (ptr_add (begin_it w' 0) 1) = Inr 3)"
proof -
  have c: "size_m demo_world 0 = 3" "capacity_m demo_world 0 = 4"
    by (simp_all add: demo_world_def)
  from Erase_shifts [OF wf_demo_world, of 1]
  show ?thesis
    by (simp add: c wf_demo_world elems_demo_world)
qed

text \<open>
  C9: on a well-formed vector with spare capacity (so that the insertion does not grow the
  buffer), \<^verbatim>\<open>Insert\<close> at \<open>begin + i\<close> for \<open>i \<le> size\<close>, by either overload and with any
  argument that can be read, followed by \<^verbatim>\<open>Erase\<close> at the iterator the insertion
  returned, gives back the original elements, size and capacity.
\<close>

theorem Insert_Erase_roundtrip:
  assumes "wf w this" "size_m w this < capacity_m w this" "i \<le> unat (size_m w this)"
    "readable (heap w) item"
  shows "\<exists>p w1 q w2.
           Insert this (ptr_add (begin_it w this) (int i)) item w = Inr (p, w1) \<and>
           Insert_move this (ptr_add (begin_it w this) (int i)) item w = Inr (p, w1) \<and>
           Erase this p w1 = Inr (q, w2) \<and>
           elems w2 this = elems w this \<and> size_m w2 this = size_m w this \<and>
           capacity_m w2 this = capacity_m w this"
proof -
  have nz: "size_m w this + 1 \<noteq> 0"
    using assms(2) by (rule size_lt_capacity_not_max)
  have pre: "size_m w this < capacity_m w this \<or>
     can_allocate (max (size_m w this + 1)
       (if capacity_m w this = 0 then 1 else capacity_m w this * 2)) w"
    "size_m w this < capacity_m w this \<or> is_Value item"
    using assms(2) by simp_all
  from Insert_spec [OF assms(1,3) nz pre(1) assms(4) pre(2)] assms(2) obtain w1 y where
    ins: "Insert this (ptr_add (begin_it w this) (int i)) item w =
            Inr (ptr_add (begin_it w1 this) (int i), w1)"
      "wf w1 this" "size_m w1 this = size_m w this + 1"
      "capacity_m w1 this = capacity_m w this"
      "elems w1 this = take i (elems w this) @ y # drop i (elems w this)"
    by auto
  have mv: "Insert_move this (ptr_add (begin_it w this) (int i)) item w =
            Inr (ptr_add (begin_it w1 this) (int i), w1)"
    using Insert_move_eq [OF wf_positions(1,2) [OF assms(1,3)], of item] ins(1) by simp
  have lt: "i < unat (size_m w1 this)"
    using assms(3) ins(3) nz by (simp add: unat_plus_one)
  from Erase_spec [OF ins(2) lt] obtain w2 where
    er: "Erase this (ptr_add (begin_it w1 this) (int i)) w1 =
            Inr (ptr_add (begin_it w2 this) (int i), w2)"
      "size_m w2 this = size_m w1 this - 1" "capacity_m w2 this = capacity_m w1 this"
      "elems w2 this = take i (elems w1 this) @ drop (Suc i) (elems w1 this)"
    by blast
  have "i \<le> length (elems w this)"
    using assms(3) length_elems [OF assms(1)] by simp
  then have "elems w2 this = elems w this"
    by (simp add: er(4) ins(5) min_def)
  with ins mv er show ?thesis
    by simp
qed

theorem Insert_Erase_roundtrip_witness:
  "(wf demo_world 0 \<and> size_m demo_world 0 < capacity_m demo_world 0 \<and>
    1 \<le> unat (size_m demo_world 0) \<and> readable (heap demo_world) (Value 99)) \<and>
   (\<exists>p w1 q w2.
       Insert 0 (ptr_add (begin_it demo_world 0) 1) (Value 99) demo_world = Inr (p, w1) \<and>
       Insert_move 0 (ptr_add (begin_it demo_world 0) 1) (Value 99) demo_world = Inr (p, w1) \<and>
       Erase 0 p w1 = Inr (q, w2) \<and>
       elems w2 0 = [1, 2, 3] \<and> size_m w2 0 = 3 \<and> capacity_m w2 0 = 4)"
proof -
  have c: "size_m demo_world 0 = 3" "capacity_m demo_world 0 = 4"
    by (simp_all add: demo_world_def)
  from Insert_Erase_roundtrip [OF wf_demo_world, of 1 "Value 99"]
  show ?thesis
    by (simp add: c wf_demo_world elems_demo_world)
qed

text \<open>
  C1: on a well-formed vector whose size equals its capacity, every \<^verbatim>\<open>PushBack\<close> and
  every \<^verbatim>\<open>Insert\<close> before the end (either overload, any argument) that returns leaves
  the capacity \<open>max (size + 1) (if capacity = 0 then 1 else capacity * 2)\<close>. The calls
  do return, with an object of the caller's as argument, when the free store can supply an
  array of that many elements and the vector has fewer than \<open>2^64 - 1\<close> elements (with
  \<open>2^64 - 1\<close> elements \<^verbatim>\<open>size_ + 1\<close> wraps to 0 and the write goes outside the block:
  \<open>PushBack_at_max\<close>, \<open>Insert_mid_at_max\<close>); the vector is then well formed and holds
  the old elements and the new one in its place.
  Consequently, \<open>n\<close> consecutive \<^verbatim>\<open>PushBack\<close> calls on an empty vector of capacity 0
  return and leave as capacity the least power of two that is at least \<open>n\<close>: the
  capacities run through 1, 2, 4, 8, ... and nothing else. This holds for
  \<open>1 \<le> n \<le> 2^62\<close> (no array has \<open>2^63\<close> elements) on a free store of at least
  \<open>3 * n\<close> elements (while the buffer grows, the old and the new block are both live).
\<close>

theorem growth_policy:
  fixes w w0 :: "'a::default world"
  shows
  "(wf w this \<and> size_m w this = capacity_m w this \<longrightarrow>
      (\<forall>w'. PushBack this item w = Inr w' \<or> PushBack_move this item w = Inr w' \<longrightarrow>
            capacity_m w' this =
              max (size_m w this + 1)
                (if capacity_m w this = 0 then 1 else capacity_m w this * 2)) \<and>
      (\<forall>i p w'. i < unat (size_m w this) \<and>
            (Insert this (ptr_add (begin_it w this) (int i)) item w = Inr (p, w') \<or>
             Insert_move this (ptr_add (begin_it w this) (int i)) item w = Inr (p, w')) \<longrightarrow>
            capacity_m w' this =
              max (size_m w this + 1)
                (if capacity_m w this = 0 then 1 else capacity_m w this * 2)) \<and>
      (size_m w this + 1 \<noteq> 0 \<and>
       can_allocate (max (size_m w this + 1)
         (if capacity_m w this = 0 then 1 else capacity_m w this * 2)) w \<longrightarrow>
         (\<exists>w'. PushBack this (Value x) w = Inr w' \<and> PushBack_move this (Value x) w = Inr w' \<and>
               wf w' this \<and> elems w' this = elems w this @ [x]) \<and>
         (\<forall>i<unat (size_m w this).
            \<exists>p w'. Insert this (ptr_add (begin_it w this) (int i)) (Value x) w = Inr (p, w') \<and>
                   Insert_move this (ptr_add (begin_it w this) (int i)) (Value x) w =
                     Inr (p, w') \<and>
                   wf w' this \<and>
                   elems w' this = take i (elems w this) @ x # drop i (elems w this)))) \<and>
   (wf w0 v \<and> size_m w0 v = 0 \<and> capacity_m w0 v = 0 \<and> xs \<noteq> [] \<and> length xs \<le> 2 ^ 62 \<and>
    3 * length xs \<le> avail w0 \<longrightarrow>
      (\<exists>w' k. PushBack_all v xs w0 = Inr w' \<and> unat (size_m w' v) = length xs \<and>
              unat (capacity_m w' v) = 2 ^ k \<and> length xs \<le> 2 ^ k \<and>
              (k = 0 \<or> 2 ^ (k - 1) < length xs) \<and> wf w' v \<and> elems w' v = xs))"
proof (intro conjI impI allI)
  fix w'
  assume a: "wf w this \<and> size_m w this = capacity_m w this"
    and r: "PushBack this item w = Inr w' \<or> PushBack_move this item w = Inr w'"
  then have r': "PushBack this item w = Inr w'"
    by (simp add: PushBack_move_eq)
  from a have "wf w this" "size_m w this = capacity_m w this"
    by simp_all
  then show "capacity_m w' this =
          max (size_m w this + 1) (if capacity_m w this = 0 then 1 else capacity_m w this * 2)"
    using r' by (rule PushBack_full_capacity)
next
  fix i p w'
  assume a: "wf w this \<and> size_m w this = capacity_m w this"
    and r: "i < unat (size_m w this) \<and>
            (Insert this (ptr_add (begin_it w this) (int i)) item w = Inr (p, w') \<or>
             Insert_move this (ptr_add (begin_it w this) (int i)) item w = Inr (p, w'))"
  from a have a': "wf w this" "size_m w this = capacity_m w this"
    by simp_all
  from r have i: "i < unat (size_m w this)" and le: "i \<le> unat (size_m w this)"
    by simp_all
  from r have r': "Insert this (ptr_add (begin_it w this) (int i)) item w = Inr (p, w')"
    using Insert_move_eq [OF wf_positions(1,2) [OF a'(1) le], of item] by auto
  from a' i r' show "capacity_m w' this =
          max (size_m w this + 1) (if capacity_m w this = 0 then 1 else capacity_m w this * 2)"
    by (rule Insert_mid_full_capacity)
next
  assume a: "wf w this \<and> size_m w this = capacity_m w this"
    and b: "size_m w this + 1 \<noteq> 0 \<and>
       can_allocate (max (size_m w this + 1)
         (if capacity_m w this = 0 then 1 else capacity_m w this * 2)) w"
  from a have a': "wf w this"
    by simp
  from b have nz: "size_m w this + 1 \<noteq> 0"
    and pre: "size_m w this < capacity_m w this \<or>
       can_allocate (max (size_m w this + 1)
         (if capacity_m w this = 0 then 1 else capacity_m w this * 2)) w"
    by simp_all
  have rd: "read_arg (heap w) (Value x) = Inr x"
    by simp
  from PushBack_spec [OF a' nz pre rd]
  show "\<exists>w'. PushBack this (Value x) w = Inr w' \<and> PushBack_move this (Value x) w = Inr w' \<and>
               wf w' this \<and> elems w' this = elems w this @ [x]"
    by (auto simp: PushBack_move_eq)
next
  fix i
  assume a: "wf w this \<and> size_m w this = capacity_m w this"
    and b: "size_m w this + 1 \<noteq> 0 \<and>
       can_allocate (max (size_m w this + 1)
         (if capacity_m w this = 0 then 1 else capacity_m w this * 2)) w"
    and i: "i < unat (size_m w this)"
  from a have a': "wf w this"
    by simp
  from b have nz: "size_m w this + 1 \<noteq> 0"
    and pre: "size_m w this < capacity_m w this \<or>
       can_allocate (max (size_m w this + 1)
         (if capacity_m w this = 0 then 1 else capacity_m w this * 2)) w"
    by simp_all
  from i have le: "i \<le> unat (size_m w this)"
    by simp
  have rd: "readable (heap w) (Value x)"
    by simp
  from Insert_mid [OF a' i nz pre rd] obtain w' where
    ins: "Insert this (ptr_add (begin_it w this) (int i)) (Value x) w =
            Inr (ptr_add (begin_it w' this) (int i), w')"
      "wf w' this" "elems w' this = take i (elems w this) @ x # drop i (elems w this)"
    by auto
  have "Insert_move this (ptr_add (begin_it w this) (int i)) (Value x) w =
          Inr (ptr_add (begin_it w' this) (int i), w')"
    using Insert_move_eq [OF wf_positions(1,2) [OF a' le], of "Value x"] ins(1) by simp
  with ins
  show "\<exists>p w'. Insert this (ptr_add (begin_it w this) (int i)) (Value x) w = Inr (p, w') \<and>
               Insert_move this (ptr_add (begin_it w this) (int i)) (Value x) w =
                 Inr (p, w') \<and>
               wf w' this \<and>
               elems w' this = take i (elems w this) @ x # drop i (elems w this)"
    by blast
next
  assume a: "wf w0 v \<and> size_m w0 v = 0 \<and> capacity_m w0 v = 0 \<and> xs \<noteq> [] \<and>
    length xs \<le> 2 ^ 62 \<and> 3 * length xs \<le> avail w0"
  then have "wf w0 v" "size_m w0 v = 0" "capacity_m w0 v = 0" "xs \<noteq> []"
    "length xs \<le> 2 ^ 62" "3 * length xs \<le> avail w0"
    by simp_all
  from PushBack_all_from_empty [OF this]
  show "\<exists>w' k. PushBack_all v xs w0 = Inr w' \<and> unat (size_m w' v) = length xs \<and>
              unat (capacity_m w' v) = 2 ^ k \<and> length xs \<le> 2 ^ k \<and>
              (k = 0 \<or> 2 ^ (k - 1) < length xs) \<and> wf w' v \<and> elems w' v = xs"
    by blast
qed

theorem growth_policy_witness:
  "(wf full_world 0 \<and> size_m full_world 0 = capacity_m full_world 0 \<and>
    size_m full_world 0 + 1 \<noteq> 0 \<and> 1 < unat (size_m full_world 0) \<and>
    can_allocate (max (size_m full_world 0 + 1)
      (if capacity_m full_world 0 = 0 then 1 else capacity_m full_world 0 * 2)) full_world) \<and>
   (\<exists>w'. PushBack 0 (Value 7) full_world = Inr w' \<and> capacity_m w' 0 = 4 \<and>
         elems w' 0 = [1, 2, 7]) \<and>
   (\<exists>p w'. Insert 0 (ptr_add (begin_it full_world 0) 1) (Value 7) full_world = Inr (p, w') \<and>
           capacity_m w' 0 = 4 \<and> elems w' 0 = [1, 7, 2]) \<and>
   (wf (snd (SimpleVector_default (init_world 100 :: int world))) 0 \<and>
    size_m (snd (SimpleVector_default (init_world 100 :: int world))) 0 = 0 \<and>
    capacity_m (snd (SimpleVector_default (init_world 100 :: int world))) 0 = 0 \<and>
    [1, 2, 3, 4, 5 :: int] \<noteq> [] \<and> length [1, 2, 3, 4, 5 :: int] \<le> 2 ^ 62 \<and>
    3 * length [1, 2, 3, 4, 5 :: int]
      \<le> avail (snd (SimpleVector_default (init_world 100 :: int world)))) \<and>
   (\<exists>w'. PushBack_all 0 [1, 2, 3, 4, 5]
           (snd (SimpleVector_default (init_world 100 :: int world))) = Inr w' \<and>
         unat (size_m w' 0) = 5 \<and> unat (capacity_m w' 0) = 8 \<and>
         elems w' 0 = [1, 2, 3, 4, 5])"
proof -
  let ?w0 = "snd (SimpleVector_default (init_world 100 :: int world))"
  note g = growth_policy [of full_world 0 "Value 7" 7 ?w0 0 "[1, 2, 3, 4, 5]"]
  note c = full_world_fields
  have al: "can_allocate (max (size_m full_world 0 + 1)
      (if capacity_m full_world 0 = 0 then 1 else capacity_m full_world 0 * 2)) full_world"
    by (simp add: c can_allocate_def)
  have h1: "wf full_world 0 \<and> size_m full_world 0 = capacity_m full_world 0"
    "size_m full_world 0 + 1 \<noteq> 0 \<and>
     can_allocate (max (size_m full_world 0 + 1)
       (if capacity_m full_world 0 = 0 then 1 else capacity_m full_world 0 * 2)) full_world"
    "1 < unat (size_m full_world 0)"
    using al by (simp_all add: wf_full_world c)
  have v: "fst (SimpleVector_default (init_world 100 :: int world)) = 0"
    by (simp add: default_constructed(4) init_world_def)
  have h2: "wf ?w0 0" "size_m ?w0 0 = 0" "capacity_m ?w0 0 = 0"
    using default_constructed(1-3) [of "init_world 100 :: int world"] by (simp_all add: v)
  have av: "avail ?w0 = 100"
    by (simp add: default_constructed(5) init_world_def)
  note gA = g [THEN conjunct1, THEN mp, OF h1(1)]
  note pc = gA [THEN conjunct1, rule_format]
  note ic = gA [THEN conjunct2, THEN conjunct1, rule_format]
  note ex = gA [THEN conjunct2, THEN conjunct2, THEN mp, OF h1(2)]
  note pe = ex [THEN conjunct1]
  note ie = ex [THEN conjunct2, rule_format, OF h1(3)]
  have h2': "wf ?w0 0 \<and> size_m ?w0 0 = 0 \<and> capacity_m ?w0 0 = 0 \<and>
      [1, 2, 3, 4, 5 :: int] \<noteq> [] \<and> length [1, 2, 3, 4, 5 :: int] \<le> 2 ^ 62 \<and>
      3 * length [1, 2, 3, 4, 5 :: int] \<le> avail ?w0"
    using h2 av by simp
  note sq = g [THEN conjunct2, THEN mp, OF h2']
  from pe obtain w1 where p: "PushBack 0 (Value 7) full_world = Inr w1"
    and pl: "elems w1 0 = elems full_world 0 @ [7]"
    by blast
  from p have "capacity_m w1 0 =
      max (size_m full_world 0 + 1)
        (if capacity_m full_world 0 = 0 then 1 else capacity_m full_world 0 * 2)"
    by (intro pc) simp
  then have p': "capacity_m w1 0 = 4" "elems w1 0 = [1, 2, 7]"
    using pl by (simp_all add: c)
  from ie obtain q w2 where
    i: "Insert 0 (ptr_add (begin_it full_world 0) (int 1)) (Value 7) full_world = Inr (q, w2)"
    and il: "elems w2 0 = take 1 (elems full_world 0) @ 7 # drop 1 (elems full_world 0)"
    by blast
  with h1(3) have "capacity_m w2 0 =
      max (size_m full_world 0 + 1)
        (if capacity_m full_world 0 = 0 then 1 else capacity_m full_world 0 * 2)"
    by (intro ic [of 1 q w2]) simp
  then have i': "capacity_m w2 0 = 4" "elems w2 0 = [1, 7, 2]"
    using il by (simp_all add: c)
  from sq obtain w3 k where
    s: "PushBack_all 0 [1, 2, 3, 4, 5] ?w0 = Inr w3" "unat (size_m w3 0) = 5"
      "unat (capacity_m w3 0) = 2 ^ k" "5 \<le> (2::nat) ^ k" "k = 0 \<or> (2::nat) ^ (k - 1) < 5"
      "elems w3 0 = [1, 2, 3, 4, 5]"
    by auto
  have "(2::nat) ^ 2 < 2 ^ k"
    using s(4) by simp
  then have k1: "2 < k"
    by (simp only: power_strict_increasing_iff)
  with s(5) have "(2::nat) ^ (k - 1) < 2 ^ 3"
    by auto
  then have "k - 1 < 3"
    by (simp only: power_strict_increasing_iff)
  with k1 have "k = 3"
    by simp
  with s(3) have s': "unat (capacity_m w3 0) = 8"
    by simp
  show ?thesis
    using h1 h2 av p p' i i' s(1,2,6) s' by simp
qed

text \<open>
  C2: in every store reachable from an empty store by the public operations (the
  constructors, the assignments, \<^verbatim>\<open>swap\<close>, \<^verbatim>\<open>PushBack\<close>, \<^verbatim>\<open>PopBack\<close>, \<^verbatim>\<open>Insert\<close>,
  \<^verbatim>\<open>Erase\<close>, \<^verbatim>\<open>Resize\<close>, \<^verbatim>\<open>Reserve\<close>, \<^verbatim>\<open>Clear\<close> and the accessors), every vector
  has its size at most its capacity; and each operation that returns preserves this, from
  any store in which it holds.
\<close>

theorem size_le_capacity_invariant:
  "(reachable w \<longrightarrow> size_m w v \<le> capacity_m w v) \<and>
   ((\<forall>u. size_m w u \<le> capacity_m w u) \<and> run c w = Inr w' \<longrightarrow>
      size_m w' v \<le> capacity_m w' v)"
  using reachable_keeps [of w v] run_keeps [of w c w' v] by blast

theorem size_le_capacity_invariant_witness:
  "(reachable (snd (SimpleVector_default (init_world 100 :: int world))) \<and>
    size_m (snd (SimpleVector_default (init_world 100 :: int world))) 0
      \<le> capacity_m (snd (SimpleVector_default (init_world 100 :: int world))) 0) \<and>
   (\<exists>w2. run (Call_PushBack 0 (Value 5))
           (snd (SimpleVector_default (init_world 100 :: int world))) = Inr w2 \<and>
         reachable w2 \<and> size_m w2 0 = 1 \<and> size_m w2 0 \<le> capacity_m w2 0) \<and>
   ((\<forall>u. size_m demo_world u \<le> capacity_m demo_world u) \<and>
    run (Call_PopBack 0) demo_world =
      Inr (demo_world\<lparr>size_m := (size_m demo_world)(0 := 2)\<rparr>) \<and>
    size_m (demo_world\<lparr>size_m := (size_m demo_world)(0 := 2)\<rparr>) 0
      \<le> capacity_m (demo_world\<lparr>size_m := (size_m demo_world)(0 := 2)\<rparr>) 0)"
proof -
  let ?w1 = "snd (SimpleVector_default (init_world 100 :: int world))"
  let ?w3 = "demo_world\<lparr>size_m := (size_m demo_world)(0 := 2)\<rparr>"
  have r1: "reachable ?w1"
    by (rule reachable.call [OF reachable.start, of New_default]) simp
  from size_le_capacity_invariant [of ?w1 0, THEN conjunct1, THEN mp, OF r1]
  have 1: "size_m ?w1 0 \<le> capacity_m ?w1 0" .
  have v: "fst (SimpleVector_default (init_world 100 :: int world)) = 0"
    by (simp add: default_constructed(4) init_world_def)
  have h: "wf ?w1 0" "size_m ?w1 0 = 0" "capacity_m ?w1 0 = 0"
    using default_constructed(1-3) [of "init_world 100 :: int world"] by (simp_all add: v)
  have av: "avail ?w1 = 100"
    by (simp add: default_constructed(5) init_world_def)
  have nz: "size_m ?w1 0 + 1 \<noteq> 0"
    by (simp add: h)
  have pre: "size_m ?w1 0 < capacity_m ?w1 0 \<or>
     can_allocate (max (size_m ?w1 0 + 1)
       (if capacity_m ?w1 0 = 0 then 1 else capacity_m ?w1 0 * 2)) ?w1"
    by (simp add: h av can_allocate_def)
  from PushBack_spec [OF h(1) nz pre, of "Value 5" 5] obtain w2 where
    p: "PushBack 0 (Value 5) ?w1 = Inr w2" "size_m w2 0 = 1"
    by (auto simp: h)
  then have r2: "reachable w2"
    by (intro reachable.call [OF r1, of "Call_PushBack 0 (Value 5)"]) simp
  from size_le_capacity_invariant [of w2 0, THEN conjunct1, THEN mp, OF r2]
  have 2: "size_m w2 0 \<le> capacity_m w2 0" .
  have 3: "(\<forall>u. size_m demo_world u \<le> capacity_m demo_world u) \<and>
      run (Call_PopBack 0) demo_world = Inr ?w3"
    by (simp add: demo_world_def PopBack_def IsEmpty_def)
  from size_le_capacity_invariant [where w = demo_world and c = "Call_PopBack 0"
        and w' = ?w3 and v = 0, THEN conjunct2, THEN mp, OF 3]
  have 4: "size_m ?w3 0 \<le> capacity_m ?w3 0" .
  from r1 1 p r2 2 3 4 show ?thesis
    by auto
qed

text \<open>
  C6: for every store and index, \<^verbatim>\<open>At\<close> throws exactly when the index is at least the
  size, it throws nothing but the out-of-range error, and it leaves the store as it was.
  On a well-formed vector and an index below the size it returns the reference to the
  element at that index. \<^verbatim>\<open>At\<close> is the only operation that ends with the out-of-range
  error. The one other error a caller can catch is the allocation error, and only the
  operations that allocate end with it; every other failure is a failed assertion or
  undefined behaviour.
\<close>

theorem At_checked:
  "(fst (At this index w) = Inl OutOfRange \<longleftrightarrow> size_m w this \<le> index) \<and>
   (\<forall>e. fst (At this index w) = Inl e \<longrightarrow> e = OutOfRange) \<and>
   snd (At this index w) = w \<and>
   (wf w this \<and> index < size_m w this \<longrightarrow>
      (\<exists>p. fst (At this index w) = Inr p \<and>
           p = ptr_add (begin_it w this) (uint index) \<and>
           load (heap w) p = Inr (elems w this ! unat index))) \<and>
   (\<forall>c e. run c w = Inl e \<and> catchable e \<longrightarrow>
      (e = OutOfRange \<and> (\<exists>v j. c = Call_At v j \<and> size_m w v \<le> j)) \<or>
      (e = BadAlloc \<and> allocates c))"
proof (intro conjI allI impI)
  show "fst (At this index w) = Inl OutOfRange \<longleftrightarrow> size_m w this \<le> index"
    by (simp add: At_def)
  show "snd (At this index w) = w"
    by (simp add: At_def)
next
  fix e
  assume "fst (At this index w) = Inl e"
  then show "e = OutOfRange"
    by (simp add: At_def split: if_splits)
next
  assume a: "wf w this \<and> index < size_m w this"
  then have lt: "unat index < unat (size_m w this)"
    by (simp add: word_less_nat_alt)
  have "load (heap w) (ptr_add (begin_it w this) (int (unat index))) =
          Inr (elems w this ! unat index)"
    using a lt by (intro load_elems) simp_all
  then have "load (heap w) (ptr_add (begin_it w this) (uint index)) =
          Inr (elems w this ! unat index)"
    by simp
  with a show "\<exists>p. fst (At this index w) = Inr p \<and>
           p = ptr_add (begin_it w this) (uint index) \<and>
           load (heap w) p = Inr (elems w this ! unat index)"
    by (simp add: At_def ArrayPtr_index_def begin_it_def Get_def not_le [symmetric])
next
  fix c :: "'a call" and e
  assume r: "run c w = Inl e \<and> catchable e"
  then consider "e = OutOfRange" | "e = BadAlloc"
    by (auto simp: catchable_iff)
  then show "(e = OutOfRange \<and> (\<exists>v j. c = Call_At v j \<and> size_m w v \<le> j)) \<or>
      (e = BadAlloc \<and> allocates c)"
  proof cases
    case 1
    with r run_throws_only_At [of c w] obtain v j where c: "c = Call_At v j"
      by auto
    with r 1 have "size_m w v \<le> j"
      by (simp add: At_def split: if_splits)
    with c 1 show ?thesis
      by simp
  next
    case 2
    with r run_bad_alloc_only_allocates [of c w] show ?thesis
      by simp
  qed
qed

theorem At_checked_witness:
  "(wf demo_world 0 \<and> (1 :: size_t) < size_m demo_world 0) \<and>
   (\<exists>p. fst (At 0 1 demo_world) = Inr p \<and> load (heap demo_world) p = Inr 2) \<and>
   (size_m demo_world 0 \<le> 3 \<and> At 0 3 demo_world = (Inl OutOfRange, demo_world)) \<and>
   At 0 0 (init_world 100 :: int world) = (Inl OutOfRange, init_world 100) \<and>
   (run (Call_At 0 3) demo_world = Inl OutOfRange \<and> catchable OutOfRange) \<and>
   (\<exists>v j. Call_At 0 3 = (Call_At v j :: int call) \<and> size_m demo_world v \<le> j) \<and>
   (run (Call_Resize 0 (- 1)) demo_world = Inl BadAlloc \<and> catchable BadAlloc) \<and>
   allocates (Call_Resize 0 (- 1) :: int call)"
proof -
  have c: "size_m demo_world 0 = 3"
    by (simp add: demo_world_def)
  have h: "wf demo_world 0 \<and> (1 :: size_t) < size_m demo_world 0"
    by (simp add: wf_demo_world c)
  note a = At_checked [of 0 1 demo_world]
  from a [THEN conjunct2, THEN conjunct2, THEN conjunct2, THEN conjunct1, THEN mp, OF h]
  have 1: "\<exists>p. fst (At 0 1 demo_world) = Inr p \<and> load (heap demo_world) p = Inr 2"
    by (simp add: elems_demo_world)
  have 2: "At 0 3 demo_world = (Inl OutOfRange, demo_world)"
    "At 0 0 (init_world 100 :: int world) = (Inl OutOfRange, init_world 100)"
    "run (Call_At 0 3) demo_world = Inl OutOfRange"
    by (simp_all add: At_def c init_world_def)
  have 3: "run (Call_At 0 3) demo_world = Inl OutOfRange \<and> catchable OutOfRange"
    using 2 by simp
  from a [THEN conjunct2, THEN conjunct2, THEN conjunct2, THEN conjunct2, rule_format, OF 3]
  have 4: "\<exists>v j. Call_At 0 3 = (Call_At v j :: int call) \<and> size_m demo_world v \<le> j"
    by simp
  have "capacity_m demo_world 0 < - 1"
    by (simp add: demo_world_fields word_less_nat_alt unat_max_size)
  then have 5: "run (Call_Resize 0 (- 1)) demo_world = Inl BadAlloc \<and> catchable BadAlloc"
    by (simp add: Resize_max_fails)
  from a [THEN conjunct2, THEN conjunct2, THEN conjunct2, THEN conjunct2, rule_format, OF 5]
  have 6: "allocates (Call_Resize 0 (- 1) :: int call)"
    by simp
  from h 1 2 4 5 6 show ?thesis
    by (simp add: c)
qed

text \<open>
  C6, as the claim has it (\<^verbatim>\<open>At\<close> is the only operation that surfaces a catchable
  error): \<^verbatim>\<open>Reserve(SIZE_MAX)\<close> on the vector \<open>[1, 2, 3]\<close> ends with the exception of
  the \<^verbatim>\<open>new\<close>-expression, which the caller can catch, and \<^verbatim>\<open>Reserve\<close> is not \<^verbatim>\<open>At\<close>.
\<close>

theorem Reserve_throws_catchable:
  "run (Call_Reserve 0 (- 1)) demo_world = Inl BadAlloc \<and> catchable BadAlloc"
proof -
  have "capacity_m demo_world 0 < - 1"
    by (simp add: demo_world_fields word_less_nat_alt unat_max_size)
  then show ?thesis
    by (simp add: Reserve_max_fails)
qed

end
